theory Spec2Isabelle
  imports Complex_Main "HOL-Library.Multiset"
begin

section \<open>Strings and machine integers\<close>

text \<open>
  \<open>boost::to_upper_copy\<close> in the default locale: the ASCII letters \<open>a\<close> .. \<open>z\<close> are
  mapped to \<open>A\<close> .. \<open>Z\<close>, every other byte is kept.
\<close>

definition to_upper_char :: "char \<Rightarrow> char" where
  "to_upper_char c =
     (case map_of (zip ''abcdefghijklmnopqrstuvwxyz'' ''ABCDEFGHIJKLMNOPQRSTUVWXYZ'') c of
        Some u \<Rightarrow> u
      | None \<Rightarrow> c)"

definition to_upper_copy :: "string \<Rightarrow> string" where
  "to_upper_copy s = map to_upper_char s"

text \<open>
  What stops the process: a null pointer handed to \<open>std::string\<close> or dereferenced,
  an iterator range that is not a range of the buffer, and the \<open>std::out_of_range\<close>
  that \<open>std::string::substr\<close> throws (nothing in the program catches it).
\<close>

datatype fault = NullPointer | InvalidRange | OutOfRange

text \<open>
  \<open>s.substr(p, n)\<close>: throws when \<open>p > s.size()\<close>; otherwise the characters from
  \<open>p\<close> on, at most \<open>n\<close> of them. Both arguments are converted to \<open>size_t\<close>, so a
  negative position is beyond every size and a negative count is no bound.
\<close>

definition substr :: "string \<Rightarrow> int \<Rightarrow> int \<Rightarrow> fault + string" where
  "substr s p n =
     (if p < 0 \<or> int (length s) < p then Inl OutOfRange
      else Inr (if n < 0 then drop (nat p) s else take (nat n) (drop (nat p) s)))"

text \<open>
  \<open>std::string(buf + a, buf + b)\<close> over a buffer holding \<open>s\<close>: defined only when
  \<open>[a, b)\<close> is a range of the buffer.
\<close>

definition string_range :: "string \<Rightarrow> int \<Rightarrow> int \<Rightarrow> fault + string" where
  "string_range s a b =
     (if 0 \<le> a \<and> a \<le> b \<and> b \<le> int (length s)
      then Inr (take (nat (b - a)) (drop (nat a) s))
      else Inl InvalidRange)"

text \<open>
  The casts of line 170: \<open>(uint32_t) x\<close> reduces modulo \<open>2^32\<close>, and the unsigned
  minimum is stored back into an \<open>int32_t\<close>. All other integers of the routine are
  \<open>int32_t\<close> or \<open>ptrdiff_t\<close> values combined with signed arithmetic, whose overflow
  is undefined; they are modelled as mathematical integers, and the stores of lines
  207, 212 and 214 into \<open>int32_t\<close> are taken to be exact (the values are positions in
  strings whose lengths the routine itself holds in \<open>int32_t\<close>).
\<close>

definition u32 :: "int \<Rightarrow> int" where
  "u32 x = x mod 2 ^ 32"

definition i32 :: "int \<Rightarrow> int" where
  "i32 x = (x + 2 ^ 31) mod 2 ^ 32 - 2 ^ 31"

section \<open>Variant records\<close>

datatype info_value = InfoString string | InfoInt int | InfoFloat real | InfoFlag

text \<open>
  The part of \<open>bcf1_t\<close> the routine reads and writes: the chromosome id, the 0-based
  position, the allele string as \<open>bcf_update_alleles_str\<close> takes it (\<open>REF,ALT\<close>) and
  the INFO fields by tag.
\<close>

record bcf1 =
  rid :: nat
  pos :: int
  alleles :: string
  info :: "string \<Rightarrow> info_value option"

text \<open>
  The buffers \<open>svt\<close>, \<open>svend\<close> and \<open>cons\<close> of lines 109-114. They are declared
  before the two loops, start as null pointers and are handed to the htslib getters
  by address for every record.
\<close>

record buffers =
  svt :: "string option"
  svend :: "int option"
  cons :: "string option"

definition null_buffers :: buffers where
  "null_buffers = \<lparr>svt = None, svend = None, cons = None\<rparr>"

text \<open>
  The htslib getters \<open>bcf_get_info_string\<close> and \<open>bcf_get_info_int32\<close>: when the
  record carries the tag with the requested type, the value is copied into the
  destination buffer; otherwise a negative code is returned and the destination is
  left as the caller passed it. The routine ignores the return code and looks at the
  buffer only, so the model returns the buffer. \<open>bcf_get_info_flag\<close> is positive
  exactly when the flag is set on the record.
\<close>

definition bcf_get_info_string :: "bcf1 \<Rightarrow> string \<Rightarrow> string option \<Rightarrow> string option" where
  "bcf_get_info_string rec tag dst =
     (case info rec tag of Some (InfoString s) \<Rightarrow> Some s | _ \<Rightarrow> dst)"

definition bcf_get_info_int32 :: "bcf1 \<Rightarrow> string \<Rightarrow> int option \<Rightarrow> int option" where
  "bcf_get_info_int32 rec tag dst =
     (case info rec tag of Some (InfoInt v) \<Rightarrow> Some v | _ \<Rightarrow> dst)"

definition bcf_get_info_flag :: "bcf1 \<Rightarrow> string \<Rightarrow> bool" where
  "bcf_get_info_flag rec tag = (info rec tag = Some InfoFlag)"

section \<open>The collaborators of the routine\<close>

text \<open>
  What \<open>_findSplit\<close> hands back through its reference parameters when it returns
  true.
\<close>

record split =
  cStart :: int
  cEnd :: int
  rStart :: int
  rEnd :: int
  gS :: int
  gE :: int
  quality :: real

text \<open>
  The functions of \<open>tags.h\<close>, \<open>util.h\<close> and \<open>junction.h\<close> that \<open>runAnnotate\<close>
  calls are parameters of the model, instantiated with the SV type: \<open>addID\<close> is
  \<open>_addID(svType)\<close>; \<open>consRefAlignment\<close> and \<open>findSplit\<close> are \<open>None\<close> where the
  C++ functions return false; \<open>findHomology\<close> returns the pair \<open>(homLeft, homRight)\<close>;
  \<open>narrow\<close> is the conversion from \<open>double\<close> to \<open>float\<close> of lines 216 and 218.
\<close>

record 'al collaborators =
  addID :: string
  consRefAlignment :: "string \<Rightarrow> string \<Rightarrow> 'al option"
  findSplit :: "'al \<Rightarrow> split option"
  findHomology :: "'al \<Rightarrow> int \<Rightarrow> int \<Rightarrow> int \<times> int"
  entropy_of :: "string \<Rightarrow> real"
  narrow :: "real \<Rightarrow> real"

section \<open>One candidate record\<close>

text \<open>Lines 145-155: the three reads into the buffers and what is computed from them.\<close>

definition read_svtype :: "buffers \<Rightarrow> bcf1 \<Rightarrow> buffers" where
  "read_svtype b rec = b\<lparr>svt := bcf_get_info_string rec ''SVTYPE'' (svt b)\<rparr>"

definition type_mismatch :: "'al collaborators \<Rightarrow> buffers \<Rightarrow> bool" where
  "type_mismatch ex b = (case svt b of None \<Rightarrow> False | Some t \<Rightarrow> t \<noteq> addID ex)"

definition read_end :: "buffers \<Rightarrow> bcf1 \<Rightarrow> buffers" where
  "read_end b rec = b\<lparr>svend := bcf_get_info_int32 rec ''END'' (svend b)\<rparr>"

definition svlen :: "buffers \<Rightarrow> bcf1 \<Rightarrow> int" where
  "svlen b rec = (case svend b of None \<Rightarrow> 1 | Some e \<Rightarrow> e - pos rec)"

definition precise :: "bcf1 \<Rightarrow> bool" where
  "precise rec = bcf_get_info_flag rec ''PRECISE''"

definition read_consensus :: "buffers \<Rightarrow> bcf1 \<Rightarrow> buffers" where
  "read_consensus b rec = b\<lparr>cons := bcf_get_info_string rec ''CONSENSUS'' (cons b)\<rparr>"

text \<open>Lines 169-171: the reference window, with its start.\<close>

definition regStart :: "bcf1 \<Rightarrow> string \<Rightarrow> int" where
  "regStart rec consensus = max (pos rec - int (length consensus)) 0"

definition regEnd :: "string \<Rightarrow> int \<Rightarrow> string \<Rightarrow> int" where
  "regEnd seq e consensus = i32 (min (u32 (e + int (length consensus))) (u32 (int (length seq))))"

definition svRefStr :: "string \<Rightarrow> bcf1 \<Rightarrow> int \<Rightarrow> string \<Rightarrow> fault + string" where
  "svRefStr seq rec e consensus =
     (case string_range seq (regStart rec consensus) (regEnd seq e consensus) of
        Inl f \<Rightarrow> Inl f
      | Inr w \<Rightarrow> Inr (to_upper_copy w))"

text \<open>
  The local variables alive at line 200, when aligner and locator have both
  succeeded and the homology detector has run.
\<close>

record refined =
  consensus :: string
  window_start :: int
  window :: string
  located :: split
  homLeft :: int
  homRight :: int

datatype realignment = AlignFailed | SplitFailed | Found refined

text \<open>
  Lines 173-185: aligner, locator and homology detector on the upper-cased
  consensus \<open>cs\<close> and the window \<open>w\<close>.
\<close>

definition align_and_split :: "'al collaborators \<Rightarrow> bcf1 \<Rightarrow> string \<Rightarrow> string \<Rightarrow> realignment" where
  "align_and_split ex rec cs w =
     (case consRefAlignment ex cs w of
        None \<Rightarrow> AlignFailed
      | Some al \<Rightarrow>
          (case findSplit ex al of
             None \<Rightarrow> SplitFailed
           | Some sp \<Rightarrow>
               (let hom = findHomology ex al (gS sp) (gE sp) in
                Found \<lparr>consensus = cs, window_start = regStart rec cs, window = w,
                  located = sp, homLeft = fst hom, homRight = snd hom\<rparr>)))"

text \<open>
  Lines 161-185, entered with the buffers as they are after the read of
  \<open>CONSENSUS\<close>. \<open>std::string(cons)\<close> and \<open>*svend\<close> need non-null buffers.
\<close>

definition try_realign ::
  "'al collaborators \<Rightarrow> string \<Rightarrow> buffers \<Rightarrow> bcf1 \<Rightarrow> fault + realignment" where
  "try_realign ex seq b rec =
     (case cons b of
        None \<Rightarrow> Inl NullPointer
      | Some c \<Rightarrow>
          (case svend b of
             None \<Rightarrow> Inl NullPointer
           | Some e \<Rightarrow>
               (case svRefStr seq rec e (to_upper_copy c) of
                  Inl f \<Rightarrow> Inl f
                | Inr w \<Rightarrow> Inr (align_and_split ex rec (to_upper_copy c) w))))"

text \<open>Lines 200-204: the two allele strings.\<close>

definition compose_alleles :: "string \<Rightarrow> string \<Rightarrow> split \<Rightarrow> fault + string \<times> string" where
  "compose_alleles w cs sp =
     (case substr w (rStart sp - 2) 1 of
        Inl f \<Rightarrow> Inl f
      | Inr precChar \<Rightarrow>
          (case (if rEnd sp > rStart sp + 1
                 then substr w (rStart sp - 1) (rEnd sp - rStart sp) else Inr []) of
             Inl f \<Rightarrow> Inl f
           | Inr refTail \<Rightarrow>
               (case (if cEnd sp > cStart sp + 1
                      then substr cs (cStart sp - 1) (cEnd sp - cStart sp) else Inr []) of
                  Inl f \<Rightarrow> Inl f
                | Inr altTail \<Rightarrow> Inr (precChar @ refTail, precChar @ altTail))))"

text \<open>Lines 206-219: the record is updated in place.\<close>

definition update_refined :: "'al collaborators \<Rightarrow> refined \<Rightarrow> string \<times> string \<Rightarrow> bcf1 \<Rightarrow> bcf1" where
  "update_refined ex rf al rec =
     rec\<lparr>pos := window_start rf + rStart (located rf) - 2,
         alleles := fst al @ '','' @ snd al,
         info := (info rec)
           (''END'' \<mapsto> InfoInt (window_start rf + rEnd (located rf)),
            ''INSLEN'' \<mapsto> InfoInt (cEnd (located rf) - cStart (located rf) - 1),
            ''SRQ'' \<mapsto> InfoFloat (narrow ex (quality (located rf))),
            ''CE'' \<mapsto> InfoFloat (narrow ex (entropy_of ex (consensus rf))))\<rparr>"

definition compose_refined :: "'al collaborators \<Rightarrow> refined \<Rightarrow> bcf1 \<Rightarrow> fault + bcf1" where
  "compose_refined ex rf rec =
     (case compose_alleles (window rf) (consensus rf) (located rf) of
        Inl f \<Rightarrow> Inl f
      | Inr al \<Rightarrow> Inr (update_refined ex rf al rec))"

text \<open>Lines 223-229: the symbolic allele.\<close>

definition use_tags :: "'al collaborators \<Rightarrow> string \<Rightarrow> bcf1 \<Rightarrow> fault + bcf1" where
  "use_tags ex seq rec =
     (case string_range seq (pos rec) (pos rec + 1) of
        Inl f \<Rightarrow> Inl f
      | Inr base \<Rightarrow> Inr (rec\<lparr>alleles := to_upper_copy base @ '',<'' @ addID ex @ ''>''\<rparr>))"

text \<open>
  One pass of the inner loop body, lines 142-230: \<open>Continue\<close> is the \<open>continue\<close> of
  line 146, \<open>Written\<close> the record handed to \<open>bcf_write1\<close>.
\<close>

datatype step = Continue | Written bcf1 | Crashed fault

definition emit :: "fault + bcf1 \<Rightarrow> step" where
  "emit r = (case r of Inl f \<Rightarrow> Crashed f | Inr rec \<Rightarrow> Written rec)"

definition process_record ::
  "'al collaborators \<Rightarrow> int \<Rightarrow> string \<Rightarrow> buffers \<Rightarrow> bcf1 \<Rightarrow> buffers \<times> step" where
  "process_record ex maxlen seq b rec =
     (let b1 = read_svtype b rec in
      if type_mismatch ex b1 then (b1, Continue)
      else
        (let b2 = read_end b1 rec in
         if svlen b2 rec \<le> maxlen \<and> precise rec then
           (let b3 = read_consensus b2 rec in
            case try_realign ex seq b3 rec of
              Inl f \<Rightarrow> (b3, Crashed f)
            | Inr (Found rf) \<Rightarrow> (b3, emit (compose_refined ex rf rec))
            | Inr _ \<Rightarrow> (b3, emit (use_tags ex seq rec)))
         else (b2, emit (use_tags ex seq rec))))"

section \<open>The two loops\<close>

text \<open>
  The header of the input: the sequence dictionary (a record's \<open>rid\<close> is an index
  into it) and the INFO lines as (ID, Number, Type).
\<close>

record bcf_hdr =
  contigs :: "string list"
  info_lines :: "(string \<times> string \<times> string) list"

fun name2id_from :: "nat \<Rightarrow> string list \<Rightarrow> string \<Rightarrow> nat option" where
  "name2id_from k [] n = None"
| "name2id_from k (c # cs) n = (if c = n then Some k else name2id_from (Suc k) cs n)"

text \<open>\<open>bcf_hdr_name2id\<close>: \<open>None\<close> is the negative id of an unknown name.\<close>

definition bcf_hdr_name2id :: "bcf_hdr \<Rightarrow> string \<Rightarrow> nat option" where
  "bcf_hdr_name2id hdr n = name2id_from 0 (contigs hdr) n"

definition bcf_hdr_remove :: "bcf_hdr \<Rightarrow> string \<Rightarrow> bcf_hdr" where
  "bcf_hdr_remove hdr tag = hdr\<lparr>info_lines := filter (\<lambda>l. fst l \<noteq> tag) (info_lines hdr)\<rparr>"

definition bcf_hdr_append :: "bcf_hdr \<Rightarrow> string \<times> string \<times> string \<Rightarrow> bcf_hdr" where
  "bcf_hdr_append hdr l = hdr\<lparr>info_lines := info_lines hdr @ [l]\<rparr>"

text \<open>Lines 95-105: the header of the output.\<close>

definition hdr_out :: "bcf_hdr \<Rightarrow> bcf_hdr" where
  "hdr_out hdr =
     fold (\<lambda>l h. bcf_hdr_append (bcf_hdr_remove h (fst l)) l)
       [(''END'', ''1'', ''Integer''), (''INSLEN'', ''1'', ''Integer''),
        (''SRQ'', ''1'', ''Float''), (''CE'', ''1'', ''Float''),
        (''MICROHOMLEN'', ''1'', ''Integer'')]
       hdr"

text \<open>
  \<open>bcf_itr_queryi(bcfidx, chrid, 0, seq->seq.l)\<close> followed by \<open>bcf_itr_next\<close>: the
  records of chromosome \<open>chrid\<close> that start inside \<open>[0, seq->seq.l)\<close>, in file
  order. Every record travels with its index in the input file, which the routine
  never sees: it only tells the output which input record a written record was.
\<close>

definition in_region :: "nat \<Rightarrow> nat \<Rightarrow> bcf1 \<Rightarrow> bool" where
  "in_region chrid l rec = (rid rec = chrid \<and> 0 \<le> pos rec \<and> pos rec < int l)"

definition bcf_itr_query :: "(nat \<times> bcf1) list \<Rightarrow> nat \<Rightarrow> nat \<Rightarrow> (nat \<times> bcf1) list" where
  "bcf_itr_query recs chrid l = filter (\<lambda>ir. in_region chrid l (snd ir)) recs"

text \<open>Lines 139-231: the records of one chromosome, until the iterator ends or the process stops.\<close>

fun records_loop ::
  "'al collaborators \<Rightarrow> int \<Rightarrow> string \<Rightarrow> buffers \<Rightarrow> (nat \<times> bcf1) list
     \<Rightarrow> buffers \<times> (nat \<times> bcf1) list \<times> fault option" where
  "records_loop ex maxlen seq b [] = (b, [], None)"
| "records_loop ex maxlen seq b (ir # rs) =
     (case process_record ex maxlen seq b (snd ir) of
        (b', Continue) \<Rightarrow> records_loop ex maxlen seq b' rs
      | (b', Written r) \<Rightarrow>
          (case records_loop ex maxlen seq b' rs of
             (b'', out, f) \<Rightarrow> (b'', (fst ir, r) # out, f))
      | (b', Crashed f) \<Rightarrow> (b', [], Some f))"

text \<open>Lines 131-235: the sequences of the genome file, in file order, as (name, bases).\<close>

fun genome_loop ::
  "'al collaborators \<Rightarrow> int \<Rightarrow> bcf_hdr \<Rightarrow> (nat \<times> bcf1) list \<Rightarrow> buffers
     \<Rightarrow> (string \<times> string) list \<Rightarrow> (nat \<times> bcf1) list \<times> fault option" where
  "genome_loop ex maxlen hdr recs b [] = ([], None)"
| "genome_loop ex maxlen hdr recs b (ns # g) =
     (case bcf_hdr_name2id hdr (fst ns) of
        None \<Rightarrow> genome_loop ex maxlen hdr recs b g
      | Some chrid \<Rightarrow>
          (case records_loop ex maxlen (snd ns) b (bcf_itr_query recs chrid (length (snd ns))) of
             (b', out, Some f) \<Rightarrow> (out, Some f)
           | (b', out, None) \<Rightarrow>
               (case genome_loop ex maxlen hdr recs b' g of
                  (out', f) \<Rightarrow> (out @ out', f))))"

text \<open>
  \<open>runAnnotate\<close>: the header written, the records written (each with the index of
  the input record it came from) and, when the process stopped inside the loops,
  why. The routine returns 0 when it returns.
\<close>

record annotated =
  header :: bcf_hdr
  written :: "(nat \<times> bcf1) list"
  stopped :: "fault option"

definition runAnnotate ::
  "'al collaborators \<Rightarrow> int \<Rightarrow> (string \<times> string) list \<Rightarrow> bcf_hdr \<Rightarrow> bcf1 list \<Rightarrow> annotated" where
  "runAnnotate ex maxlen genome hdr recs =
     (case genome_loop ex maxlen hdr (enumerate 0 recs) null_buffers genome of
        (out, f) \<Rightarrow> \<lparr>header = hdr_out hdr, written = out, stopped = f\<rparr>)"

section \<open>The command surface\<close>

text \<open>
  \<open>main\<close>, lines 297-329, over the parsed options and what \<open>boost::filesystem\<close>
  reports about the genome path. The result lists what is printed and called, in
  order, and the exit status; \<open>core\<close> is the value \<open>runAnnotate\<close> returns.
\<close>

record options =
  help_opt :: bool
  warranty :: bool
  license :: bool
  infile :: "string option"
  svType :: string
  genome :: string

record path_status =
  path_exists :: bool
  is_regular_file :: bool
  file_size :: nat

datatype sv_tag = DeletionTag | InsertionTag

datatype event =
  PrintTitle | DisplayWarranty | GplV3 | Usage | ShowCmd | Cerr string | RunAnnotate sv_tag

definition main_model :: "(sv_tag \<Rightarrow> int) \<Rightarrow> options \<Rightarrow> path_status \<Rightarrow> event list \<times> int" where
  "main_model core vm st =
     (if help_opt vm \<or> infile vm = None then
        ([PrintTitle,
          if warranty vm then DisplayWarranty else if license vm then GplV3 else Usage], 1)
      else if \<not> (path_exists st \<and> is_regular_file st \<and> file_size st \<noteq> 0) then
        ([ShowCmd, Cerr (''Reference file is missing: '' @ genome vm)], 1)
      else if svType vm = ''DEL'' then ([ShowCmd, RunAnnotate DeletionTag], core DeletionTag)
      else if svType vm = ''INS'' then ([ShowCmd, RunAnnotate InsertionTag], core InsertionTag)
      else ([ShowCmd, Cerr (''SV analysis type not yet supported '' @ svType vm)], 1))"

definition core_invoked :: "event list \<times> int \<Rightarrow> bool" where
  "core_invoked r = (RunAnnotate DeletionTag \<in> set (fst r) \<or> RunAnnotate InsertionTag \<in> set (fst r))"

section \<open>Sequence complexity\<close>

text \<open>
  Modelled from the spec: \<open>entropy\<close> is declared in \<open>util.h\<close>, which is not among the
  sources; \<open>runAnnotate\<close> only calls it (line 218). The spec words it as the Shannon
  entropy in bits of the empirical symbol-frequency distribution, \<open>-\<Sum> p * log2 p\<close>
  over the observed symbols. It is stated over the reals.
\<close>

definition frequency :: "string \<Rightarrow> char \<Rightarrow> real" where
  "frequency st c = real (count_list st c) / real (length st)"

definition entropy :: "string \<Rightarrow> real" where
  "entropy st = - (\<Sum>c\<in>set st. frequency st c * log 2 (frequency st c))"

section \<open>Paths through the loop body\<close>

text \<open>
  The conditions of lines 146 and 159 and the outcome of lines 161-185, for a record
  met with the buffers \<open>b\<close>.
\<close>

definition passes_filter :: "'al collaborators \<Rightarrow> buffers \<Rightarrow> bcf1 \<Rightarrow> bool" where
  "passes_filter ex b rec = (\<not> type_mismatch ex (read_svtype b rec))"

definition eligible :: "int \<Rightarrow> buffers \<Rightarrow> bcf1 \<Rightarrow> bool" where
  "eligible maxlen b rec = (svlen (read_end (read_svtype b rec) rec) rec \<le> maxlen \<and> precise rec)"

definition refinement_attempted :: "'al collaborators \<Rightarrow> int \<Rightarrow> buffers \<Rightarrow> bcf1 \<Rightarrow> bool" where
  "refinement_attempted ex maxlen b rec = (passes_filter ex b rec \<and> eligible maxlen b rec)"

definition realigned :: "'al collaborators \<Rightarrow> string \<Rightarrow> buffers \<Rightarrow> bcf1 \<Rightarrow> fault + realignment" where
  "realigned ex seq b rec =
     try_realign ex seq (read_consensus (read_end (read_svtype b rec) rec) rec) rec"

text \<open>
  Lines 200-204 read the window at \<open>rStart - 2\<close> and, behind their guards, the window
  from \<open>rStart - 1\<close> and the consensus from \<open>cStart - 1\<close>. A read of \<open>n\<close> characters
  at \<open>p\<close> is inside \<open>s\<close> when all of them exist.
\<close>

definition in_bounds :: "string \<Rightarrow> int \<Rightarrow> int \<Rightarrow> bool" where
  "in_bounds s p n = (0 \<le> p \<and> 0 \<le> n \<and> p + n \<le> int (length s))"

definition accesses_in_bounds :: "string \<Rightarrow> string \<Rightarrow> split \<Rightarrow> bool" where
  "accesses_in_bounds w cs sp =
     (in_bounds w (rStart sp - 2) 1 \<and>
      (rEnd sp > rStart sp + 1 \<longrightarrow> in_bounds w (rStart sp - 1) (rEnd sp - rStart sp)) \<and>
      (cEnd sp > cStart sp + 1 \<longrightarrow> in_bounds cs (cStart sp - 1) (cEnd sp - cStart sp)))"

text \<open>
  No \<open>substr\<close> of lines 200-204 throws: every position handed to it is at most the
  size of its string.
\<close>

definition composition_defined :: "string \<Rightarrow> string \<Rightarrow> split \<Rightarrow> bool" where
  "composition_defined w cs sp =
     (2 \<le> rStart sp \<and> rStart sp - 2 \<le> int (length w) \<and>
      (rEnd sp > rStart sp + 1 \<longrightarrow> rStart sp - 1 \<le> int (length w)) \<and>
      (cEnd sp > cStart sp + 1 \<longrightarrow> 1 \<le> cStart sp \<and> cStart sp - 1 \<le> int (length cs)))"

text \<open>
  \<open>precChar\<close> of line 200 when \<open>substr\<close> returns: at most one character, and none when
  the position is the size of the window.
\<close>

definition precChar :: "string \<Rightarrow> split \<Rightarrow> string" where
  "precChar w sp = take 1 (drop (nat (rStart sp - 2)) w)"

text \<open>A record that carries an SVTYPE string, and one whose SVTYPE is the requested type.\<close>

definition typed :: "bcf1 \<Rightarrow> bool" where
  "typed rec = (\<exists>t. info rec ''SVTYPE'' = Some (InfoString t))"

definition type_matches :: "'al collaborators \<Rightarrow> bcf1 \<Rightarrow> bool" where
  "type_matches ex rec = (info rec ''SVTYPE'' = Some (InfoString (addID ex)))"

section \<open>The properties as the specification words them\<close>

text \<open>
  The window of the data model: the upper-cased chromosome substring over
  \<open>[max(pos - L, 0), min(end + L, N))\<close>.
\<close>

definition spec_window :: "string \<Rightarrow> int \<Rightarrow> int \<Rightarrow> int \<Rightarrow> string" where
  "spec_window seq p e L =
     to_upper_copy
       (take (nat (min (e + L) (int (length seq)) - max (p - L) 0)) (drop (nat (max (p - L) 0)) seq))"

text \<open>
  The composer of section 4.6: the anchor base is the one before \<open>rStart\<close>, and a span
  \<open>[a, b)\<close> is read in the locator's coordinates, in which the base at string index
  \<open>i\<close> has the number \<open>i + 1\<close>.
\<close>

definition anchor :: "string \<Rightarrow> split \<Rightarrow> string" where
  "anchor w sp = [w ! nat (rStart sp - 2)]"

definition spec_span :: "string \<Rightarrow> int \<Rightarrow> int \<Rightarrow> string" where
  "spec_span s a b = take (nat (b - a)) (drop (nat (a - 1)) s)"

definition spec_alleles :: "string \<Rightarrow> string \<Rightarrow> split \<Rightarrow> string \<times> string" where
  "spec_alleles w cs sp =
     (anchor w sp @ spec_span w (rStart sp) (rEnd sp),
      anchor w sp @ spec_span cs (cStart sp) (cEnd sp))"

text \<open>
  The driver's contract of section 4.1, read off the record alone: the type field
  matches or is absent, and \<open>svLength\<close> is \<open>END - pos\<close> when the record has an
  \<open>END\<close> and 1 otherwise.
\<close>

definition spec_type_ok :: "'al collaborators \<Rightarrow> bcf1 \<Rightarrow> bool" where
  "spec_type_ok ex rec =
     (info rec ''SVTYPE'' = None \<or> info rec ''SVTYPE'' = Some (InfoString (addID ex)))"

definition spec_svLength :: "bcf1 \<Rightarrow> int" where
  "spec_svLength rec = (case info rec ''END'' of Some (InfoInt e) \<Rightarrow> e - pos rec | _ \<Rightarrow> 1)"

definition spec_attempt :: "'al collaborators \<Rightarrow> int \<Rightarrow> bcf1 \<Rightarrow> bool" where
  "spec_attempt ex maxlen rec =
     (spec_type_ok ex rec \<and> spec_svLength rec \<le> maxlen \<and> precise rec)"


section \<open>Example inputs\<close>

text \<open>
  Collaborators with fixed answers: the aligner returns \<open>a\<close>, the locator \<open>sp\<close>, the
  homology detector no homology.
\<close>

definition fixed_ex :: "string \<Rightarrow> unit option \<Rightarrow> split option \<Rightarrow> unit collaborators" where
  "fixed_ex tag a sp =
     \<lparr>addID = tag, consRefAlignment = (\<lambda>c w. a), findSplit = (\<lambda>al. sp),
      findHomology = (\<lambda>al s e. (0, 0)), entropy_of = entropy, narrow = (\<lambda>x. x)\<rparr>"

definition chr1 :: string where
  "chr1 = ''acgtacgtacgtacgtacgt''"

definition del_record :: bcf1 where
  "del_record =
     \<lparr>rid = 0, pos = 8, alleles = ''N,<DEL>'',
      info = [''SVTYPE'' \<mapsto> InfoString ''DEL'', ''END'' \<mapsto> InfoInt 12,
              ''PRECISE'' \<mapsto> InfoFlag, ''CONSENSUS'' \<mapsto> InfoString ''gtacgtac'']\<rparr>"

definition del_split :: split where
  "del_split = \<lparr>cStart = 4, cEnd = 5, rStart = 6, rEnd = 10, gS = 5, gE = 8, quality = 1\<rparr>"

definition ins_split :: split where
  "ins_split = \<lparr>cStart = 2, cEnd = 6, rStart = 9, rEnd = 10, gS = 9, gE = 12, quality = 1\<rparr>"

definition unordered_split :: split where
  "unordered_split = \<lparr>cStart = 1, cEnd = 1, rStart = 10, rEnd = 3, gS = 0, gE = 0, quality = 0\<rparr>"

definition short_split :: split where
  "short_split = \<lparr>cStart = 0, cEnd = 1, rStart = 2, rEnd = 3, gS = 0, gE = 0, quality = 0\<rparr>"

definition neg_end_record :: bcf1 where
  "neg_end_record =
     \<lparr>rid = 0, pos = 3, alleles = ''N,<DEL>'',
      info = [''SVTYPE'' \<mapsto> InfoString ''DEL'', ''END'' \<mapsto> InfoInt (- 5),
              ''PRECISE'' \<mapsto> InfoFlag, ''CONSENSUS'' \<mapsto> InfoString ''ac'']\<rparr>"

definition ins_record :: bcf1 where
  "ins_record =
     \<lparr>rid = 0, pos = 8, alleles = ''N,<INS>'',
      info = [''SVTYPE'' \<mapsto> InfoString ''INS'', ''END'' \<mapsto> InfoInt 12,
              ''PRECISE'' \<mapsto> InfoFlag, ''CONSENSUS'' \<mapsto> InfoString ''gtacgtac'']\<rparr>"

definition homlen_record :: bcf1 where
  "homlen_record = del_record\<lparr>info := (info del_record)(''MICROHOMLEN'' \<mapsto> InfoInt 7)\<rparr>"

definition demo_hdr :: bcf_hdr where
  "demo_hdr = \<lparr>contigs = [''chr1''],
     info_lines = [(''SVTYPE'', ''1'', ''String''), (''END'', ''1'', ''Integer''),
                   (''PRECISE'', ''0'', ''Flag''), (''CONSENSUS'', ''1'', ''String'')]\<rparr>"

definition chr10 :: string where
  "chr10 = ''acgtacgtac''"

definition inverted_record :: bcf1 where
  "inverted_record =
     \<lparr>rid = 0, pos = 8, alleles = ''N,<DEL>'',
      info = [''SVTYPE'' \<mapsto> InfoString ''DEL'', ''END'' \<mapsto> InfoInt 2,
              ''PRECISE'' \<mapsto> InfoFlag, ''CONSENSUS'' \<mapsto> InfoString ''ac'']\<rparr>"

definition inv_record :: bcf1 where
  "inv_record =
     \<lparr>rid = 0, pos = 2, alleles = ''N,<INV>'',
      info = [''SVTYPE'' \<mapsto> InfoString ''INV'', ''END'' \<mapsto> InfoInt 6, ''PRECISE'' \<mapsto> InfoFlag]\<rparr>"

definition untyped_record :: bcf1 where
  "untyped_record =
     \<lparr>rid = 0, pos = 8, alleles = ''N,<DEL>'',
      info = [''END'' \<mapsto> InfoInt 12, ''PRECISE'' \<mapsto> InfoFlag,
              ''CONSENSUS'' \<mapsto> InfoString ''gtacgtac'']\<rparr>"

definition late_record :: bcf1 where
  "late_record =
     \<lparr>rid = 0, pos = 15, alleles = ''N,<DEL>'',
      info = [''SVTYPE'' \<mapsto> InfoString ''DEL'', ''END'' \<mapsto> InfoInt 18]\<rparr>"

definition untyped_imprecise_record :: bcf1 where
  "untyped_imprecise_record =
     \<lparr>rid = 0, pos = 8, alleles = ''N,<DEL>'',
      info = [''END'' \<mapsto> InfoInt 12, ''CONSENSUS'' \<mapsto> InfoString ''gtacgtac'']\<rparr>"

definition end5_record :: bcf1 where
  "end5_record =
     \<lparr>rid = 0, pos = 2, alleles = ''N,<DEL>'',
      info = [''SVTYPE'' \<mapsto> InfoString ''DEL'', ''END'' \<mapsto> InfoInt 5]\<rparr>"

definition no_end_record :: bcf1 where
  "no_end_record =
     \<lparr>rid = 0, pos = 8, alleles = ''N,<DEL>'',
      info = [''SVTYPE'' \<mapsto> InfoString ''DEL'', ''PRECISE'' \<mapsto> InfoFlag,
              ''CONSENSUS'' \<mapsto> InfoString ''gtacgtac'']\<rparr>"

definition demo_options :: options where
  "demo_options = \<lparr>help_opt = False, warranty = False, license = False,
     infile = Some ''calls.bcf'', svType = ''DEL'', genome = ''missing.fa''\<rparr>"

definition empty_file :: path_status where
  "empty_file = \<lparr>path_exists = True, is_regular_file = True, file_size = 0\<rparr>"

lemmas record_defs =
  process_record_def read_svtype_def type_mismatch_def bcf_get_info_string_def read_end_def
  bcf_get_info_int32_def svlen_def precise_def bcf_get_info_flag_def read_consensus_def
  try_realign_def align_and_split_def svRefStr_def regStart_def regEnd_def u32_def i32_def
  string_range_def to_upper_copy_def to_upper_char_def compose_refined_def compose_alleles_def
  substr_def update_refined_def use_tags_def emit_def

lemmas path_defs =
  passes_filter_def eligible_def refinement_attempted_def realigned_def

lemmas example_defs =
  fixed_ex_def chr1_def del_record_def del_split_def null_buffers_def demo_options_def
  empty_file_def ins_split_def unordered_split_def short_split_def neg_end_record_def
  ins_record_def homlen_record_def demo_hdr_def
  chr10_def inverted_record_def inv_record_def untyped_record_def late_record_def
  untyped_imprecise_record_def end5_record_def no_end_record_def

section \<open>The paths of the loop body\<close>

lemma process_record_skip:
  "\<not> passes_filter ex b rec \<Longrightarrow>
     process_record ex maxlen seq b rec = (read_svtype b rec, Continue)"
  by (simp add: process_record_def passes_filter_def)

lemma process_record_tags:
  "passes_filter ex b rec \<Longrightarrow> \<not> eligible maxlen b rec \<Longrightarrow>
     process_record ex maxlen seq b rec =
       (read_end (read_svtype b rec) rec, emit (use_tags ex seq rec))"
  by (auto simp add: process_record_def passes_filter_def eligible_def Let_def)

lemma process_record_realign:
  "refinement_attempted ex maxlen b rec \<Longrightarrow>
     process_record ex maxlen seq b rec =
       (read_consensus (read_end (read_svtype b rec) rec) rec,
        case realigned ex seq b rec of
          Inl f \<Rightarrow> Crashed f
        | Inr (Found rf) \<Rightarrow> emit (compose_refined ex rf rec)
        | Inr _ \<Rightarrow> emit (use_tags ex seq rec))"
  by (auto simp add: process_record_def refinement_attempted_def passes_filter_def eligible_def
      realigned_def Let_def split: sum.splits realignment.splits)

lemma use_tags_in_region:
  "0 \<le> pos rec \<Longrightarrow> pos rec < int (length seq) \<Longrightarrow>
     use_tags ex seq rec =
       Inr (rec\<lparr>alleles := [to_upper_char (seq ! nat (pos rec))] @ '',<'' @ addID ex @ ''>''\<rparr>)"
proof -
  assume a: "0 \<le> pos rec" "pos rec < int (length seq)"
  then have n: "nat (pos rec) < length seq" by linarith
  have "take (Suc 0) (drop (nat (pos rec)) seq) = [seq ! nat (pos rec)]"
    using n by (metis Cons_nth_drop_Suc take0 take_Suc_Cons)
  then show ?thesis
    using a by (simp add: use_tags_def string_range_def to_upper_copy_def)
qed

section \<open>Entropy\<close>

lemma entropy_one_symbol: "set st \<subseteq> {c} \<Longrightarrow> entropy st = 0"
proof (cases "st = []")
  case True
  then show ?thesis by (simp add: entropy_def)
next
  case False
  assume a: "set st \<subseteq> {c}"
  with False have s: "set st = {c}" by (cases st) auto
  have "count_list st c = length st"
    using a by (induction st) auto
  with False show ?thesis by (simp add: entropy_def s frequency_def)
qed

lemma log_quarter: "log 2 (1 / 4) = - 2"
proof -
  have "log 2 (1 / 4) = - log 2 (2 ^ 2)"
    by (simp add: log_divide)
  also have "\<dots> = - 2" by (simp only: log_pow_cancel)
  finally show ?thesis .
qed

lemma entropy_mset: "mset s = mset t \<Longrightarrow> entropy s = entropy t"
proof -
  assume a: "mset s = mset t"
  have 1: "set s = set t" using a by (rule mset_eq_setD)
  have 2: "length s = length t" using a by (rule mset_eq_length)
  have 3: "count_list s c = count_list t c" for c
    using a by (metis count_mset)
  show ?thesis by (simp add: entropy_def frequency_def 1 2 3)
qed

text \<open>
  C5: the entropy of the empty string and of a string over one symbol is 0, in
  particular that of \<open>AAAA\<close>; the entropy of \<open>ACGT\<close> is 2 bits; two strings with the
  same multiset of characters have the same entropy.
\<close>

theorem entropy_properties:
  "entropy [] = 0 \<and> (\<forall>st c. set st \<subseteq> {c} \<longrightarrow> entropy st = 0) \<and>
   entropy ''AAAA'' = 0 \<and> entropy ''ACGT'' = 2 \<and>
   (\<forall>s t. mset s = mset t \<longrightarrow> entropy s = entropy t)"
proof -
  have "entropy ''ACGT'' = 2"
    by (simp add: entropy_def frequency_def log_quarter)
  moreover have "entropy ''AAAA'' = 0"
    by (rule entropy_one_symbol [of _ "CHR ''A''"]) simp
  moreover have "entropy [] = 0" by (simp add: entropy_def)
  ultimately show ?thesis
    using entropy_one_symbol entropy_mset by blast
qed

theorem entropy_properties_witness:
  "set ''TTT'' \<subseteq> {CHR ''T''} \<and> entropy ''TTT'' = 0 \<and>
   mset ''GATTACA'' = mset ''AAACGTT'' \<and> entropy ''GATTACA'' = entropy ''AAACGTT''"
proof -
  have 1: "set ''TTT'' \<subseteq> {CHR ''T''}" by simp
  have 2: "mset ''GATTACA'' = mset ''AAACGTT''" by (simp add: ac_simps)
  from entropy_properties have
    a: "\<forall>st c. set st \<subseteq> {c} \<longrightarrow> entropy st = 0" and
    b: "\<forall>s t. mset s = mset t \<longrightarrow> entropy s = entropy t" by blast+
  from a 1 have "entropy ''TTT'' = 0" by blast
  moreover from b 2 have "entropy ''GATTACA'' = entropy ''AAACGTT''" by blast
  ultimately show ?thesis using 1 2 by blast
qed

section \<open>The reference check of the command surface\<close>

text \<open>
  C6: when the genome path does not exist, is not a regular file or is empty,
  \<open>main\<close> exits with status 1, the last thing it prints is a message (the usage
  texts when the options already end the run, the line
  \<open>Reference file is missing: <path>\<close> on the error stream otherwise), and
  \<open>runAnnotate\<close> is not called.
\<close>

theorem reference_checked_before_core:
  "\<not> (path_exists st \<and> is_regular_file st \<and> file_size st \<noteq> 0) \<Longrightarrow>
     snd (main_model core vm st) = 1 \<and>
     \<not> core_invoked (main_model core vm st) \<and>
     last (fst (main_model core vm st)) \<in>
       {Usage, DisplayWarranty, GplV3, Cerr (''Reference file is missing: '' @ genome vm)} \<and>
     (\<not> help_opt vm \<and> infile vm \<noteq> None \<longrightarrow>
        main_model core vm st =
          ([ShowCmd, Cerr (''Reference file is missing: '' @ genome vm)], 1))"
  by (simp add: main_model_def core_invoked_def)

theorem reference_checked_before_core_witness:
  "\<not> (path_exists empty_file \<and> is_regular_file empty_file \<and> file_size empty_file \<noteq> 0) \<and>
   main_model (\<lambda>t. 0) demo_options empty_file =
     ([ShowCmd, Cerr ''Reference file is missing: missing.fa''], 1) \<and>
   \<not> core_invoked (main_model (\<lambda>t. 0) demo_options empty_file)"
  using reference_checked_before_core [of empty_file "\<lambda>t. 0" demo_options]
  by (simp add: demo_options_def empty_file_def core_invoked_def)

section \<open>The fallback path\<close>

lemma queried_in_region:
  "ir \<in> set (bcf_itr_query recs chrid (length seq)) \<Longrightarrow>
     ir \<in> set recs \<and> rid (snd ir) = chrid \<and> 0 \<le> pos (snd ir) \<and> pos (snd ir) < int (length seq)"
  by (simp add: bcf_itr_query_def in_region_def)

lemma fallback_path:
  assumes q: "(i, rec) \<in> set (bcf_itr_query recs chrid (length seq))"
    and p: "passes_filter ex b rec"
    and f: "\<not> eligible maxlen b rec \<or> realigned ex seq b rec = Inr AlignFailed \<or>
            realigned ex seq b rec = Inr SplitFailed"
  shows "snd (process_record ex maxlen seq b rec) =
           Written (rec\<lparr>alleles := [to_upper_char (seq ! nat (pos rec))] @ '',<'' @ addID ex @ ''>''\<rparr>)"
proof -
  from queried_in_region [OF q] have reg: "0 \<le> pos rec" "pos rec < int (length seq)" by simp_all
  have tags: "emit (use_tags ex seq rec) =
      Written (rec\<lparr>alleles := [to_upper_char (seq ! nat (pos rec))] @ '',<'' @ addID ex @ ''>''\<rparr>)"
    by (simp add: use_tags_in_region [OF reg] emit_def)
  have "snd (process_record ex maxlen seq b rec) = emit (use_tags ex seq rec)"
  proof (cases "eligible maxlen b rec")
    case False
    with p show ?thesis by (simp add: process_record_tags)
  next
    case True
    with p have a: "refinement_attempted ex maxlen b rec" by (simp add: refinement_attempted_def)
    from True f have "realigned ex seq b rec = Inr AlignFailed \<or> realigned ex seq b rec = Inr SplitFailed"
      by blast
    then show ?thesis by (auto simp add: process_record_realign [OF a])
  qed
  with tags show ?thesis by simp
qed

section \<open>The refined path\<close>

lemma compose_alleles_defined:
  "composition_defined w cs sp \<Longrightarrow>
     compose_alleles w cs sp =
       Inr (precChar w sp @ (if rEnd sp > rStart sp + 1 then spec_span w (rStart sp) (rEnd sp) else []),
            precChar w sp @ (if cEnd sp > cStart sp + 1 then spec_span cs (cStart sp) (cEnd sp) else []))"
  by (auto simp add: composition_defined_def compose_alleles_def substr_def precChar_def spec_span_def)

lemma precChar_in_bounds:
  "in_bounds w (rStart sp - 2) 1 \<Longrightarrow> precChar w sp = anchor w sp"
proof -
  assume "in_bounds w (rStart sp - 2) 1"
  then have "nat (rStart sp - 2) < length w" unfolding in_bounds_def by linarith
  then show ?thesis
    unfolding precChar_def anchor_def by (metis Cons_nth_drop_Suc One_nat_def take0 take_Suc_Cons)
qed

lemma span_in_bounds:
  "in_bounds s (a - 1) (b - a) \<Longrightarrow> length (spec_span s a b) = nat (b - a)"
  unfolding in_bounds_def spec_span_def by simp linarith

lemma compose_alleles_throws:
  "\<not> composition_defined w cs sp \<Longrightarrow> compose_alleles w cs sp = Inl OutOfRange"
  by (auto simp add: composition_defined_def compose_alleles_def substr_def)

lemma in_bounds_defined:
  "accesses_in_bounds w cs sp \<Longrightarrow> composition_defined w cs sp"
  by (auto simp add: accesses_in_bounds_def composition_defined_def in_bounds_def)

lemma realigned_found:
  "realigned ex seq b rec = Inr (Found rf) \<Longrightarrow>
     window_start rf = max (pos rec - int (length (consensus rf))) 0 \<and>
     (\<exists>al. consRefAlignment ex (consensus rf) (window rf) = Some al \<and>
        findSplit ex al = Some (located rf) \<and>
        (homLeft rf, homRight rf) = findHomology ex al (gS (located rf)) (gE (located rf)))"
  by (auto simp add: realigned_def try_realign_def align_and_split_def regStart_def Let_def
      split: option.splits sum.splits)

lemma refined_written:
  assumes a: "refinement_attempted ex maxlen b rec"
    and r: "realigned ex seq b rec = Inr (Found rf)"
    and d: "composition_defined (window rf) (consensus rf) (located rf)"
  shows "snd (process_record ex maxlen seq b rec) =
     Written (update_refined ex rf
       (precChar (window rf) (located rf) @
          (if rEnd (located rf) > rStart (located rf) + 1
           then spec_span (window rf) (rStart (located rf)) (rEnd (located rf)) else []),
        precChar (window rf) (located rf) @
          (if cEnd (located rf) > cStart (located rf) + 1
           then spec_span (consensus rf) (cStart (located rf)) (cEnd (located rf)) else []))
       rec)"
  by (simp add: process_record_realign [OF a] r compose_refined_def
      compose_alleles_defined [OF d] emit_def)

text \<open>
  C2, as the code has it: when refinement is attempted, aligner and locator succeed
  and every read of lines 200-204 is in range, the record is written with position
  \<open>window start + rStart - 2\<close>; REF is the anchor base (the window base at index
  \<open>rStart - 2\<close>) followed by the window span \<open>[rStart, rEnd)\<close>, all \<open>rEnd - rStart\<close>
  bases of it, only if \<open>rEnd > rStart + 1\<close>; ALT is the same anchor base followed by
  the consensus span \<open>[cStart, cEnd)\<close>, all \<open>cEnd - cStart\<close> bases of it, only if
  \<open>cEnd > cStart + 1\<close>; each is the anchor base alone otherwise. END is
  \<open>window start + rEnd\<close>, INSLEN is \<open>cEnd - cStart - 1\<close>, SRQ the quality and CE the
  entropy of the consensus, both narrowed to \<open>float\<close>. The window starts at
  \<open>max(pos - |consensus|, 0)\<close>.
\<close>

theorem refined_record:
  assumes a: "refinement_attempted ex maxlen b rec"
    and r: "realigned ex seq b rec = Inr (Found rf)"
    and d: "accesses_in_bounds (window rf) (consensus rf) (located rf)"
  shows "\<exists>w. snd (process_record ex maxlen seq b rec) = Written w \<and>
     window_start rf = max (pos rec - int (length (consensus rf))) 0 \<and>
     pos w = window_start rf + rStart (located rf) - 1 - 1 \<and>
     alleles w =
       (anchor (window rf) (located rf) @
          (if rEnd (located rf) > rStart (located rf) + 1
           then spec_span (window rf) (rStart (located rf)) (rEnd (located rf)) else [])) @
       '','' @
       (anchor (window rf) (located rf) @
          (if cEnd (located rf) > cStart (located rf) + 1
           then spec_span (consensus rf) (cStart (located rf)) (cEnd (located rf)) else [])) \<and>
     length (anchor (window rf) (located rf)) = 1 \<and>
     (rEnd (located rf) > rStart (located rf) + 1 \<longrightarrow>
        length (spec_span (window rf) (rStart (located rf)) (rEnd (located rf))) =
          nat (rEnd (located rf) - rStart (located rf))) \<and>
     (cEnd (located rf) > cStart (located rf) + 1 \<longrightarrow>
        length (spec_span (consensus rf) (cStart (located rf)) (cEnd (located rf))) =
          nat (cEnd (located rf) - cStart (located rf))) \<and>
     info w ''END'' = Some (InfoInt (window_start rf + rEnd (located rf))) \<and>
     info w ''INSLEN'' = Some (InfoInt (cEnd (located rf) - cStart (located rf) - 1)) \<and>
     info w ''SRQ'' = Some (InfoFloat (narrow ex (quality (located rf)))) \<and>
     info w ''CE'' = Some (InfoFloat (narrow ex (entropy_of ex (consensus rf))))"
proof -
  from d have pc: "precChar (window rf) (located rf) = anchor (window rf) (located rf)"
    by (simp add: accesses_in_bounds_def precChar_in_bounds)
  from d have l1: "rEnd (located rf) > rStart (located rf) + 1 \<longrightarrow>
        length (spec_span (window rf) (rStart (located rf)) (rEnd (located rf))) =
          nat (rEnd (located rf) - rStart (located rf))"
    by (simp add: accesses_in_bounds_def span_in_bounds)
  from d have l2: "cEnd (located rf) > cStart (located rf) + 1 \<longrightarrow>
        length (spec_span (consensus rf) (cStart (located rf)) (cEnd (located rf))) =
          nat (cEnd (located rf) - cStart (located rf))"
    by (simp add: accesses_in_bounds_def span_in_bounds)
  have l0: "length (anchor (window rf) (located rf)) = 1" by (simp add: anchor_def)
  note w = refined_written [OF a r in_bounds_defined [OF d]]
  show ?thesis
    using realigned_found [OF r] l0 l1 l2
    by (simp add: w pc update_refined_def)
qed

lemma del_example_realigned:
  "realigned (fixed_ex ''DEL'' (Some ()) (Some del_split)) chr1 null_buffers del_record =
     Inr (Found \<lparr>consensus = ''GTACGTAC'', window_start = 0, window = ''ACGTACGTACGTACGTACGT'',
            located = del_split, homLeft = 0, homRight = 0\<rparr>)"
  by (simp add: path_defs record_defs fixed_ex_def chr1_def del_record_def null_buffers_def)

lemma del_example_attempted:
  "refinement_attempted (fixed_ex ''DEL'' (Some ()) (Some del_split)) 500 null_buffers del_record"
  by (simp add: path_defs record_defs fixed_ex_def del_record_def null_buffers_def)

theorem refined_record_witness:
  "refinement_attempted (fixed_ex ''DEL'' (Some ()) (Some del_split)) 500 null_buffers del_record \<and>
   accesses_in_bounds ''ACGTACGTACGTACGTACGT'' ''GTACGTAC'' del_split \<and>
   (\<exists>w. snd (process_record (fixed_ex ''DEL'' (Some ()) (Some del_split)) 500 chr1 null_buffers
              del_record) = Written w \<and>
      pos w = 4 \<and> alleles w = ''ACGTA,A'' \<and> info w ''END'' = Some (InfoInt 10) \<and>
      info w ''INSLEN'' = Some (InfoInt 0) \<and> info w ''SRQ'' = Some (InfoFloat 1) \<and>
      info w ''CE'' = Some (InfoFloat (entropy ''GTACGTAC'')))"
proof -
  have d: "accesses_in_bounds ''ACGTACGTACGTACGTACGT'' ''GTACGTAC'' del_split"
    by (simp add: accesses_in_bounds_def in_bounds_def del_split_def)
  show ?thesis
    using refined_record [OF del_example_attempted del_example_realigned] d del_example_attempted
    by (auto simp add: anchor_def spec_span_def del_split_def fixed_ex_def)
qed

text \<open>
  The property as the specification words it fails where the locator returns \<open>rEnd = rStart + 1\<close>, as it
  does when no reference base is replaced: the span \<open>[rStart, rEnd)\<close> holds one base,
  and line 202 appends nothing.
\<close>

theorem refined_record_counterexample:
  "refinement_attempted (fixed_ex ''INS'' (Some ()) (Some ins_split)) 500 null_buffers ins_record \<and>
   realigned (fixed_ex ''INS'' (Some ()) (Some ins_split)) chr1 null_buffers ins_record =
     Inr (Found \<lparr>consensus = ''GTACGTAC'', window_start = 0, window = ''ACGTACGTACGTACGTACGT'',
            located = ins_split, homLeft = 0, homRight = 0\<rparr>) \<and>
   snd (process_record (fixed_ex ''INS'' (Some ()) (Some ins_split)) 500 chr1 null_buffers
          ins_record) =
     Written (ins_record\<lparr>pos := 7, alleles := ''T,TTACG'',
       info := (info ins_record)
         (''END'' \<mapsto> InfoInt 10, ''INSLEN'' \<mapsto> InfoInt 3, ''SRQ'' \<mapsto> InfoFloat 1,
          ''CE'' \<mapsto> InfoFloat (entropy ''GTACGTAC''))\<rparr>) \<and>
   spec_alleles ''ACGTACGTACGTACGTACGT'' ''GTACGTAC'' ins_split = (''TA'', ''TTACG'')"
  by (simp add: path_defs record_defs fixed_ex_def chr1_def ins_record_def null_buffers_def
      ins_split_def spec_alleles_def anchor_def spec_span_def)

text \<open>
  C7: when a record is written on the refined path, its INSLEN is
  \<open>cEnd - cStart - 1\<close>, which is not negative whenever the locator returned
  \<open>cEnd > cStart\<close>.
\<close>

theorem inslen_not_negative:
  assumes a: "refinement_attempted ex maxlen b rec"
    and r: "realigned ex seq b rec = Inr (Found rf)"
    and w: "snd (process_record ex maxlen seq b rec) = Written w"
    and c: "cStart (located rf) < cEnd (located rf)"
  shows "\<exists>n. info w ''INSLEN'' = Some (InfoInt n) \<and>
           n = cEnd (located rf) - cStart (located rf) - 1 \<and> 0 \<le> n"
proof (cases "composition_defined (window rf) (consensus rf) (located rf)")
  case True
  from refined_written [OF a r True] w show ?thesis
    using c by (auto simp add: update_refined_def)
next
  case False
  from compose_alleles_throws [OF False] w show ?thesis
    by (simp add: process_record_realign [OF a] r compose_refined_def emit_def)
qed

theorem inslen_not_negative_witness:
  "refinement_attempted (fixed_ex ''INS'' (Some ()) (Some ins_split)) 500 null_buffers ins_record \<and>
   cStart ins_split < cEnd ins_split \<and>
   (\<exists>w. snd (process_record (fixed_ex ''INS'' (Some ()) (Some ins_split)) 500 chr1 null_buffers
              ins_record) = Written w \<and>
      info w ''INSLEN'' = Some (InfoInt 3))"
proof -
  let ?ex = "fixed_ex ''INS'' (Some ()) (Some ins_split)"
  let ?rf = "\<lparr>consensus = ''GTACGTAC'', window_start = 0, window = ''ACGTACGTACGTACGTACGT'',
            located = ins_split, homLeft = 0, homRight = 0\<rparr>"
  have a: "refinement_attempted ?ex 500 null_buffers ins_record"
    by (simp add: path_defs record_defs fixed_ex_def ins_record_def null_buffers_def)
  have r: "realigned ?ex chr1 null_buffers ins_record = Inr (Found ?rf)"
    by (simp add: path_defs record_defs fixed_ex_def chr1_def ins_record_def null_buffers_def)
  have d: "composition_defined (window ?rf) (consensus ?rf) (located ?rf)"
    by (simp add: composition_defined_def ins_split_def)
  obtain w where w: "snd (process_record ?ex 500 chr1 null_buffers ins_record) = Written w"
    using refined_written [OF a r d] by blast
  have c: "cStart (located ?rf) < cEnd (located ?rf)" by (simp add: ins_split_def)
  from inslen_not_negative [OF a r w c]
  have "info w ''INSLEN'' = Some (InfoInt 3)" by (simp add: ins_split_def)
  with a w show ?thesis by (auto simp add: ins_split_def)
qed

lemma written_keeps_microhomlen:
  "snd (process_record ex maxlen seq b rec) = Written w \<Longrightarrow>
     info w ''MICROHOMLEN'' = info rec ''MICROHOMLEN''"
  by (auto simp add: process_record_def Let_def emit_def use_tags_def compose_refined_def
      update_refined_def split: if_splits sum.splits realignment.splits)

lemma refined_info:
  assumes a: "refinement_attempted ex maxlen b rec"
    and r: "realigned ex seq b rec = Inr (Found rf)"
    and w: "snd (process_record ex maxlen seq b rec) = Written w"
  shows "info w =
           (info rec)
             (''END'' \<mapsto> InfoInt (window_start rf + rEnd (located rf)),
              ''INSLEN'' \<mapsto> InfoInt (cEnd (located rf) - cStart (located rf) - 1),
              ''SRQ'' \<mapsto> InfoFloat (narrow ex (quality (located rf))),
              ''CE'' \<mapsto> InfoFloat (narrow ex (entropy_of ex (consensus rf))))"
  using w by (auto simp add: process_record_realign [OF a] r compose_refined_def emit_def
      update_refined_def split: sum.splits)

lemma homology_unused:
  assumes a: "refinement_attempted ex maxlen b rec"
    and r: "realigned ex seq b rec = Inr (Found rf)"
  shows "snd (process_record (ex\<lparr>findHomology := h\<rparr>) maxlen seq b rec) =
         snd (process_record ex maxlen seq b rec)"
proof -
  let ?ex = "ex\<lparr>findHomology := h\<rparr>"
  have a': "refinement_attempted ?ex maxlen b rec"
    using a by (simp add: path_defs type_mismatch_def split: option.splits)
  have "\<exists>hl hr. realigned ?ex seq b rec = Inr (Found (rf\<lparr>homLeft := hl, homRight := hr\<rparr>))"
    using r by (auto simp add: realigned_def try_realign_def align_and_split_def Let_def
        split: option.splits sum.splits)
  then obtain hl hr where
    r': "realigned ?ex seq b rec = Inr (Found (rf\<lparr>homLeft := hl, homRight := hr\<rparr>))"
    by blast
  have "snd (process_record ?ex maxlen seq b rec) =
      emit (compose_refined ?ex (rf\<lparr>homLeft := hl, homRight := hr\<rparr>) rec)"
    by (simp add: process_record_realign [OF a'] r')
  also have "\<dots> = emit (compose_refined ex rf rec)"
    by (simp add: compose_refined_def update_refined_def split: sum.splits)
  also have "\<dots> = snd (process_record ex maxlen seq b rec)"
    by (simp add: process_record_realign [OF a] r)
  finally show ?thesis .
qed

lemma hdr_out_declares_microhomlen:
  "(''MICROHOMLEN'', ''1'', ''Integer'') \<in> set (info_lines (hdr_out hdr))"
  by (simp add: hdr_out_def bcf_hdr_append_def bcf_hdr_remove_def)

text \<open>
  C8: a written record carries MICROHOMLEN as the input record had it, on every
  path, although the header written to the output declares the field. On the
  refined path the homology detector has been applied to the alignment and the gap
  the locator returned, and its result is among the locals; the written record
  carries END, INSLEN, SRQ and CE as computed and every other INFO field as the
  input record had it, whatever the detector returns.
\<close>

theorem microhomlen_not_written:
  assumes w: "snd (process_record ex maxlen seq b rec) = Written w"
  shows "info w ''MICROHOMLEN'' = info rec ''MICROHOMLEN'' \<and>
         (''MICROHOMLEN'', ''1'', ''Integer'') \<in> set (info_lines (hdr_out hdr)) \<and>
         (refinement_attempted ex maxlen b rec \<and> realigned ex seq b rec = Inr (Found rf) \<longrightarrow>
            (\<exists>al. consRefAlignment ex (consensus rf) (window rf) = Some al \<and>
               findSplit ex al = Some (located rf) \<and>
               (homLeft rf, homRight rf) =
                 findHomology ex al (gS (located rf)) (gE (located rf))) \<and>
            info w =
              (info rec)
                (''END'' \<mapsto> InfoInt (window_start rf + rEnd (located rf)),
                 ''INSLEN'' \<mapsto> InfoInt (cEnd (located rf) - cStart (located rf) - 1),
                 ''SRQ'' \<mapsto> InfoFloat (narrow ex (quality (located rf))),
                 ''CE'' \<mapsto> InfoFloat (narrow ex (entropy_of ex (consensus rf)))) \<and>
            (\<forall>tag. tag \<notin> {''END'', ''INSLEN'', ''SRQ'', ''CE''} \<longrightarrow> info w tag = info rec tag) \<and>
            (\<forall>h. snd (process_record (ex\<lparr>findHomology := h\<rparr>) maxlen seq b rec) = Written w))"
proof -
  have "info w ''MICROHOMLEN'' = info rec ''MICROHOMLEN''"
    using w by (rule written_keeps_microhomlen)
  moreover note hdr_out_declares_microhomlen
  moreover have "refinement_attempted ex maxlen b rec \<and> realigned ex seq b rec = Inr (Found rf) \<longrightarrow>
            (\<exists>al. consRefAlignment ex (consensus rf) (window rf) = Some al \<and>
               findSplit ex al = Some (located rf) \<and>
               (homLeft rf, homRight rf) =
                 findHomology ex al (gS (located rf)) (gE (located rf))) \<and>
            info w =
              (info rec)
                (''END'' \<mapsto> InfoInt (window_start rf + rEnd (located rf)),
                 ''INSLEN'' \<mapsto> InfoInt (cEnd (located rf) - cStart (located rf) - 1),
                 ''SRQ'' \<mapsto> InfoFloat (narrow ex (quality (located rf))),
                 ''CE'' \<mapsto> InfoFloat (narrow ex (entropy_of ex (consensus rf)))) \<and>
            (\<forall>tag. tag \<notin> {''END'', ''INSLEN'', ''SRQ'', ''CE''} \<longrightarrow> info w tag = info rec tag) \<and>
            (\<forall>h. snd (process_record (ex\<lparr>findHomology := h\<rparr>) maxlen seq b rec) = Written w)"
  proof (intro impI, elim conjE)
    assume a: "refinement_attempted ex maxlen b rec"
      and r: "realigned ex seq b rec = Inr (Found rf)"
    note i = refined_info [OF a r w]
    have "\<forall>tag. tag \<notin> {''END'', ''INSLEN'', ''SRQ'', ''CE''} \<longrightarrow> info w tag = info rec tag"
      by (simp add: i)
    then show "(\<exists>al. consRefAlignment ex (consensus rf) (window rf) = Some al \<and>
               findSplit ex al = Some (located rf) \<and>
               (homLeft rf, homRight rf) =
                 findHomology ex al (gS (located rf)) (gE (located rf))) \<and>
            info w =
              (info rec)
                (''END'' \<mapsto> InfoInt (window_start rf + rEnd (located rf)),
                 ''INSLEN'' \<mapsto> InfoInt (cEnd (located rf) - cStart (located rf) - 1),
                 ''SRQ'' \<mapsto> InfoFloat (narrow ex (quality (located rf))),
                 ''CE'' \<mapsto> InfoFloat (narrow ex (entropy_of ex (consensus rf)))) \<and>
            (\<forall>tag. tag \<notin> {''END'', ''INSLEN'', ''SRQ'', ''CE''} \<longrightarrow> info w tag = info rec tag) \<and>
            (\<forall>h. snd (process_record (ex\<lparr>findHomology := h\<rparr>) maxlen seq b rec) = Written w)"
      using realigned_found [OF r] i homology_unused [OF a r] w by simp
  qed
  ultimately show ?thesis by blast
qed

theorem microhomlen_not_written_witness:
  "refinement_attempted (fixed_ex ''DEL'' (Some ()) (Some del_split)) 500 null_buffers homlen_record \<and>
   realigned (fixed_ex ''DEL'' (Some ()) (Some del_split)) chr1 null_buffers homlen_record =
     Inr (Found \<lparr>consensus = ''GTACGTAC'', window_start = 0, window = ''ACGTACGTACGTACGTACGT'',
            located = del_split, homLeft = 0, homRight = 0\<rparr>) \<and>
   (\<exists>w. snd (process_record (fixed_ex ''DEL'' (Some ()) (Some del_split)) 500 chr1 null_buffers
              homlen_record) = Written w \<and>
      info w ''MICROHOMLEN'' = Some (InfoInt 7) \<and> info w ''END'' = Some (InfoInt 10) \<and>
      info w ''SVTYPE'' = Some (InfoString ''DEL'') \<and>
      snd (process_record
             (fixed_ex ''DEL'' (Some ()) (Some del_split)\<lparr>findHomology := \<lambda>al s e. (3, 4)\<rparr>)
             500 chr1 null_buffers homlen_record) = Written w) \<and>
   (''MICROHOMLEN'', ''1'', ''Integer'') \<in> set (info_lines (hdr_out demo_hdr))"
proof -
  let ?ex = "fixed_ex ''DEL'' (Some ()) (Some del_split)"
  let ?rf = "\<lparr>consensus = ''GTACGTAC'', window_start = 0, window = ''ACGTACGTACGTACGTACGT'',
            located = del_split, homLeft = 0, homRight = 0\<rparr>"
  have a: "refinement_attempted ?ex 500 null_buffers homlen_record"
    by (simp add: path_defs record_defs fixed_ex_def del_record_def homlen_record_def
        null_buffers_def)
  have r: "realigned ?ex chr1 null_buffers homlen_record = Inr (Found ?rf)"
    by (simp add: path_defs record_defs fixed_ex_def chr1_def del_record_def homlen_record_def
        null_buffers_def)
  have d: "composition_defined (window ?rf) (consensus ?rf) (located ?rf)"
    by (simp add: composition_defined_def del_split_def)
  obtain w where w: "snd (process_record ?ex 500 chr1 null_buffers homlen_record) = Written w"
    using refined_written [OF a r d] by blast
  from microhomlen_not_written [OF w, of demo_hdr ?rf] a r
  have "info w ''MICROHOMLEN'' = Some (InfoInt 7) \<and> info w ''END'' = Some (InfoInt 10) \<and>
      info w ''SVTYPE'' = Some (InfoString ''DEL'') \<and>
      snd (process_record (?ex\<lparr>findHomology := \<lambda>al s e. (3, 4)\<rparr>) 500 chr1 null_buffers
             homlen_record) = Written w \<and>
      (''MICROHOMLEN'', ''1'', ''Integer'') \<in> set (info_lines (hdr_out demo_hdr))"
    by (simp add: homlen_record_def del_record_def del_split_def)
  with a r w show ?thesis by blast
qed

section \<open>The reads of the composition\<close>

lemma compose_alleles_defined_iff:
  "(\<exists>al. compose_alleles w cs sp = Inr al) \<longleftrightarrow> composition_defined w cs sp"
proof
  assume "\<exists>al. compose_alleles w cs sp = Inr al"
  then show "composition_defined w cs sp"
    using compose_alleles_throws [of w cs sp] by fastforce
next
  assume "composition_defined w cs sp"
  then show "\<exists>al. compose_alleles w cs sp = Inr al"
    by (simp add: compose_alleles_defined)
qed




section \<open>The reference window\<close>

lemma to_upper_copy_length [simp]: "length (to_upper_copy s) = length s"
  by (simp add: to_upper_copy_def)

lemma regEnd_clamped:
  assumes "0 \<le> e + int (length cs)" "e + int (length cs) < 2 ^ 32" "int (length seq) < 2 ^ 31"
  shows "regEnd seq e cs = min (e + int (length cs)) (int (length seq))"
proof -
  have 1: "u32 (e + int (length cs)) = e + int (length cs)"
    using assms by (simp add: u32_def)
  have 2: "u32 (int (length seq)) = int (length seq)"
    using assms by (simp add: u32_def)
  let ?m = "min (e + int (length cs)) (int (length seq))"
  have "0 \<le> ?m" "?m < 2 ^ 31" using assms by auto
  then have "i32 ?m = ?m" by (simp add: i32_def)
  with 1 2 show ?thesis by (simp add: regEnd_def)
qed

lemma fresh_buffers:
  assumes "info rec ''END'' = Some (InfoInt e)" "info rec ''CONSENSUS'' = Some (InfoString c)"
  shows "svend (read_consensus (read_end (read_svtype b rec) rec) rec) = Some e"
    and "cons (read_consensus (read_end (read_svtype b rec) rec) rec) = Some c"
  using assms
  by (simp_all add: read_consensus_def read_end_def read_svtype_def bcf_get_info_int32_def
      bcf_get_info_string_def)

text \<open>
  C3, as the code has it: for a record that carries END \<open>e\<close> and a consensus of
  length \<open>L\<close> and for which refinement is attempted, on a chromosome of length
  \<open>N < 2^31\<close>, with \<open>0 \<le> e + L < 2^32\<close> and \<open>max(pos - L, 0) \<le> min(e + L, N)\<close>, the
  window extracted at line 171 and handed to the aligner is the upper-cased
  chromosome substring over \<open>[max(pos - L, 0), min(e + L, N))\<close>.
\<close>

theorem window_is_clamped_substring:
  assumes e: "info rec ''END'' = Some (InfoInt e)"
    and c: "info rec ''CONSENSUS'' = Some (InfoString c)"
    and a: "refinement_attempted ex maxlen b rec"
    and lo: "0 \<le> e + int (length c)"
    and hi: "e + int (length c) < 2 ^ 32"
    and n: "int (length seq) < 2 ^ 31"
    and ord: "max (pos rec - int (length c)) 0 \<le> min (e + int (length c)) (int (length seq))"
  shows "svRefStr seq rec e (to_upper_copy c) =
           Inr (spec_window seq (pos rec) e (int (length c))) \<and>
         realigned ex seq b rec =
           Inr (align_and_split ex rec (to_upper_copy c)
                  (spec_window seq (pos rec) e (int (length c)))) \<and>
         snd (process_record ex maxlen seq b rec) =
           (case align_and_split ex rec (to_upper_copy c)
                   (spec_window seq (pos rec) e (int (length c))) of
              Found rf \<Rightarrow> emit (compose_refined ex rf rec)
            | _ \<Rightarrow> emit (use_tags ex seq rec))"
proof -
  have re: "regEnd seq e (to_upper_copy c) = min (e + int (length c)) (int (length seq))"
    using regEnd_clamped [of e "to_upper_copy c" seq] lo hi n by simp
  have w: "svRefStr seq rec e (to_upper_copy c) =
           Inr (spec_window seq (pos rec) e (int (length c)))"
    using ord by (simp add: svRefStr_def re regStart_def string_range_def spec_window_def)
  have r: "realigned ex seq b rec =
           Inr (align_and_split ex rec (to_upper_copy c)
                  (spec_window seq (pos rec) e (int (length c))))"
    by (simp add: realigned_def try_realign_def fresh_buffers [OF e c] w)
  show ?thesis
    by (simp add: w r process_record_realign [OF a] split: realignment.splits)
qed

theorem window_is_clamped_substring_witness:
  "info del_record ''END'' = Some (InfoInt 12) \<and>
   info del_record ''CONSENSUS'' = Some (InfoString ''gtacgtac'') \<and>
   refinement_attempted (fixed_ex ''DEL'' (Some ()) (Some del_split)) 500 null_buffers del_record \<and>
   (0::int) \<le> 12 + int (length ''gtacgtac'') \<and> 12 + int (length ''gtacgtac'') < (2::int) ^ 32 \<and>
   int (length chr1) < 2 ^ 31 \<and>
   max (pos del_record - int (length ''gtacgtac'')) 0 \<le>
     min (12 + int (length ''gtacgtac'')) (int (length chr1)) \<and>
   svRefStr chr1 del_record 12 (to_upper_copy ''gtacgtac'') = Inr ''ACGTACGTACGTACGTACGT'' \<and>
   spec_window chr1 (pos del_record) 12 (int (length ''gtacgtac'')) = ''ACGTACGTACGTACGTACGT''"
proof -
  have e: "info del_record ''END'' = Some (InfoInt 12)" by (simp add: del_record_def)
  have c: "info del_record ''CONSENSUS'' = Some (InfoString ''gtacgtac'')"
    by (simp add: del_record_def)
  have a: "refinement_attempted (fixed_ex ''DEL'' (Some ()) (Some del_split)) 500 null_buffers
             del_record"
    by (simp add: path_defs record_defs fixed_ex_def del_record_def null_buffers_def)
  have lo: "(0::int) \<le> 12 + int (length ''gtacgtac'')" by simp
  have hi: "12 + int (length ''gtacgtac'') < (2::int) ^ 32" by simp
  have n: "int (length chr1) < 2 ^ 31" by (simp add: chr1_def)
  have ord: "max (pos del_record - int (length ''gtacgtac'')) 0 \<le>
     min (12 + int (length ''gtacgtac'')) (int (length chr1))"
    by (simp add: del_record_def chr1_def)
  have s: "spec_window chr1 (pos del_record) 12 (int (length ''gtacgtac'')) =
      ''ACGTACGTACGTACGTACGT''"
    by (simp add: spec_window_def chr1_def del_record_def to_upper_copy_def to_upper_char_def)
  from window_is_clamped_substring [OF e c a lo hi n ord] s
  have "svRefStr chr1 del_record 12 (to_upper_copy ''gtacgtac'') = Inr ''ACGTACGTACGTACGTACGT''"
    by simp
  with e c a lo hi n ord s show ?thesis by blast
qed

text \<open>
  The property as the specification words it fails for an eligible record whose END is negative: the cast
  to \<open>uint32_t\<close> of line 170 makes the chromosome length the minimum, and the window
  runs to the end of the chromosome. It also fails for an eligible record whose END
  lies so far before its position that the range of line 171 is inverted: no window
  is handed to the aligner.
\<close>

theorem window_is_clamped_substring_counterexample:
  "refinement_attempted (fixed_ex ''DEL'' (Some ()) None) 500 null_buffers
     neg_end_record \<and>
   realigned (fixed_ex ''DEL'' (Some ()) None) chr10 null_buffers neg_end_record =
     Inr (align_and_split (fixed_ex ''DEL'' (Some ()) None) neg_end_record ''AC'' ''CGTACGTAC'') \<and>
   svRefStr chr10 neg_end_record (- 5) ''AC'' = Inr ''CGTACGTAC'' \<and>
   spec_window chr10 (pos neg_end_record) (- 5) (int (length ''ac'')) = [] \<and>
   refinement_attempted (fixed_ex ''DEL'' (Some ()) None) 500 null_buffers
     inverted_record \<and>
   realigned (fixed_ex ''DEL'' (Some ()) None) chr10 null_buffers inverted_record =
     Inl InvalidRange \<and>
   spec_window chr10 (pos inverted_record) 2 (int (length ''ac'')) = []"
  by (simp add: path_defs record_defs fixed_ex_def chr10_def neg_end_record_def
      inverted_record_def null_buffers_def spec_window_def)

section \<open>The decision to refine\<close>

lemma attempt_matches_contract:
  assumes t: "info rec ''SVTYPE'' = None \<and> svt b = None \<or>
              (\<exists>t. info rec ''SVTYPE'' = Some (InfoString t))"
    and e: "svend b = None \<or> (\<exists>e. info rec ''END'' = Some (InfoInt e))"
  shows "refinement_attempted ex maxlen b rec \<longleftrightarrow> spec_attempt ex maxlen rec"
proof -
  have 1: "passes_filter ex b rec \<longleftrightarrow> spec_type_ok ex rec"
    using t by (auto simp add: passes_filter_def type_mismatch_def read_svtype_def
        bcf_get_info_string_def spec_type_ok_def)
  have 2: "svlen (read_end (read_svtype b rec) rec) rec = spec_svLength rec"
    using e by (auto simp add: svlen_def read_end_def read_svtype_def bcf_get_info_int32_def
        spec_svLength_def split: option.splits info_value.splits)
  show ?thesis
    by (simp add: refinement_attempted_def eligible_def spec_attempt_def 1 2)
qed

text \<open>
  C4 at a file of two records of one chromosome, an inversion followed by a record
  without SVTYPE, annotated for deletions: the contract asks for the second record
  to be refined, and alone in a file it is; after the inversion the buffer \<open>svt\<close>
  still holds \<open>INV\<close>, line 146 skips the record and nothing is written.
\<close>

theorem stale_type_buffer:
  "spec_attempt (fixed_ex ''DEL'' (Some ()) (Some del_split)) 500 untyped_record \<and>
   refinement_attempted (fixed_ex ''DEL'' (Some ()) (Some del_split)) 500 null_buffers
     untyped_record \<and>
   process_record (fixed_ex ''DEL'' (Some ()) (Some del_split)) 500 chr1 null_buffers inv_record =
     (\<lparr>svt = Some ''INV'', svend = None, cons = None\<rparr>, Continue) \<and>
   \<not> refinement_attempted (fixed_ex ''DEL'' (Some ()) (Some del_split)) 500
       \<lparr>svt = Some ''INV'', svend = None, cons = None\<rparr> untyped_record \<and>
   process_record (fixed_ex ''DEL'' (Some ()) (Some del_split)) 500 chr1
       \<lparr>svt = Some ''INV'', svend = None, cons = None\<rparr> untyped_record =
     (\<lparr>svt = Some ''INV'', svend = None, cons = None\<rparr>, Continue) \<and>
   written (runAnnotate (fixed_ex ''DEL'' (Some ()) (Some del_split)) 500 [(''chr1'', chr1)]
              demo_hdr [inv_record, untyped_record]) = [] \<and>
   map fst (written (runAnnotate (fixed_ex ''DEL'' (Some ()) (Some del_split)) 500
              [(''chr1'', chr1)] demo_hdr [untyped_record])) = [0]"
  by (simp add: spec_attempt_def spec_type_ok_def spec_svLength_def path_defs record_defs
      fixed_ex_def chr1_def inv_record_def untyped_record_def null_buffers_def del_split_def
      runAnnotate_def bcf_hdr_name2id_def demo_hdr_def bcf_itr_query_def in_region_def
      enumerate_eq_zip)

section \<open>The fallback path and the buffers\<close>

text \<open>
  With buffers that hold nothing of an earlier record (they are null, or the record
  itself carries the field and overwrites them), the contract's conditions on the
  record decide the fallback: a record handed over by the region query whose type
  field matches or is absent, and whose \<open>svLength\<close> exceeds the threshold, or which is
  not precise, or for which aligner or locator fails, is written with only its
  alleles replaced.
\<close>

lemma fallback_with_fresh_buffers:
  assumes q: "(i, rec) \<in> set (bcf_itr_query recs chrid (length seq))"
    and t: "info rec ''SVTYPE'' = None \<and> svt b = None \<or>
            (\<exists>t. info rec ''SVTYPE'' = Some (InfoString t))"
    and e: "svend b = None \<or> (\<exists>e. info rec ''END'' = Some (InfoInt e))"
    and p: "spec_type_ok ex rec"
    and f: "maxlen < spec_svLength rec \<or> \<not> precise rec \<or>
            realigned ex seq b rec = Inr AlignFailed \<or> realigned ex seq b rec = Inr SplitFailed"
  shows "snd (process_record ex maxlen seq b rec) =
           Written (rec\<lparr>alleles := [to_upper_char (seq ! nat (pos rec))] @ '',<'' @ addID ex @ ''>''\<rparr>)"
proof -
  have 1: "passes_filter ex b rec"
    using t p by (auto simp add: passes_filter_def type_mismatch_def read_svtype_def
        bcf_get_info_string_def spec_type_ok_def)
  have 2: "svlen (read_end (read_svtype b rec) rec) rec = spec_svLength rec"
    using e by (auto simp add: svlen_def read_end_def read_svtype_def bcf_get_info_int32_def
        spec_svLength_def split: option.splits info_value.splits)
  from f have "\<not> eligible maxlen b rec \<or> realigned ex seq b rec = Inr AlignFailed \<or>
            realigned ex seq b rec = Inr SplitFailed"
    by (auto simp add: eligible_def 2)
  from fallback_path [OF q 1 this] show ?thesis .
qed

text \<open>
  C1 at two files of one chromosome. A record without SVTYPE that is not precise is
  written with the fallback alleles when it is alone in the file, and is not written
  at all after an inversion, whose type is still in \<open>svt\<close> at line 146. A precise
  record without END has \<open>svLength\<close> 1; with the threshold 0 it is written with the
  fallback alleles when it is alone, and is refined after a record with END 5, which
  is still in \<open>svend\<close> at lines 151 and 170.
\<close>

theorem stale_buffers_on_fallback:
  "spec_type_ok (fixed_ex ''DEL'' (Some ()) (Some del_split)) untyped_imprecise_record \<and>
   \<not> precise untyped_imprecise_record \<and>
   written (runAnnotate (fixed_ex ''DEL'' (Some ()) (Some del_split)) 500 [(''chr1'', chr1)]
              demo_hdr [untyped_imprecise_record]) =
     [(0, untyped_imprecise_record\<lparr>alleles := ''A,<DEL>''\<rparr>)] \<and>
   written (runAnnotate (fixed_ex ''DEL'' (Some ()) (Some del_split)) 500 [(''chr1'', chr1)]
              demo_hdr [inv_record, untyped_imprecise_record]) = [] \<and>
   spec_type_ok (fixed_ex ''DEL'' (Some ()) (Some del_split)) no_end_record \<and>
   spec_svLength no_end_record = 1 \<and>
   written (runAnnotate (fixed_ex ''DEL'' (Some ()) (Some del_split)) 0 [(''chr1'', chr1)]
              demo_hdr [no_end_record]) =
     [(0, no_end_record\<lparr>alleles := ''A,<DEL>''\<rparr>)] \<and>
   written (runAnnotate (fixed_ex ''DEL'' (Some ()) (Some del_split)) 0 [(''chr1'', chr1)]
              demo_hdr [end5_record, no_end_record]) =
     [(0, end5_record\<lparr>alleles := ''G,<DEL>''\<rparr>),
      (1, no_end_record\<lparr>pos := 4, alleles := ''ACGTA,A'',
            info := (info no_end_record)
              (''END'' \<mapsto> InfoInt 10, ''INSLEN'' \<mapsto> InfoInt 0, ''SRQ'' \<mapsto> InfoFloat 1,
               ''CE'' \<mapsto> InfoFloat (entropy ''GTACGTAC''))\<rparr>)]"
  by (simp add: spec_type_ok_def spec_svLength_def record_defs fixed_ex_def chr1_def
      inv_record_def untyped_imprecise_record_def end5_record_def no_end_record_def
      null_buffers_def del_split_def runAnnotate_def bcf_hdr_name2id_def demo_hdr_def
      bcf_itr_query_def in_region_def enumerate_eq_zip)

section \<open>Which records are written\<close>

lemma emit_not_continue: "emit x \<noteq> Continue"
  by (simp add: emit_def split: sum.splits)

lemma typed_record_skipped_iff:
  assumes "info rec ''SVTYPE'' = Some (InfoString t)"
  shows "snd (process_record ex maxlen seq b rec) = Continue \<longleftrightarrow> t \<noteq> addID ex"
proof (cases "t = addID ex")
  case False
  with assms have "\<not> passes_filter ex b rec"
    by (simp add: passes_filter_def type_mismatch_def read_svtype_def bcf_get_info_string_def)
  with False show ?thesis by (simp add: process_record_skip)
next
  case True
  with assms have p: "passes_filter ex b rec"
    by (simp add: passes_filter_def type_mismatch_def read_svtype_def bcf_get_info_string_def)
  have "snd (process_record ex maxlen seq b rec) \<noteq> Continue"
  proof (cases "eligible maxlen b rec")
    case False
    with p show ?thesis by (simp add: process_record_tags emit_not_continue)
  next
    case True
    with p have "refinement_attempted ex maxlen b rec" by (simp add: refinement_attempted_def)
    then show ?thesis
      by (simp add: process_record_realign emit_not_continue split: sum.splits realignment.splits)
  qed
  with True show ?thesis by simp
qed

lemma records_loop_count_typed:
  "records_loop ex maxlen seq b rs = (b', out, None) \<Longrightarrow>
     \<forall>ir\<in>set rs. fst ir = i \<longrightarrow> typed (snd ir) \<Longrightarrow>
     count_list (map fst out) i =
       count_list (map fst (filter (\<lambda>ir. type_matches ex (snd ir)) rs)) i"
proof (induction rs arbitrary: b b' out)
  case Nil
  then show ?case by simp
next
  case (Cons ir rs)
  obtain b1 st where p: "process_record ex maxlen seq b (snd ir) = (b1, st)"
    by (cases "process_record ex maxlen seq b (snd ir)")
  have sk: "fst ir = i \<Longrightarrow> st = Continue \<longleftrightarrow> \<not> type_matches ex (snd ir)"
  proof -
    assume "fst ir = i"
    with Cons.prems(2) obtain t where t: "info (snd ir) ''SVTYPE'' = Some (InfoString t)"
      by (auto simp add: typed_def)
    from typed_record_skipped_iff [OF t, of ex maxlen seq b] p t show ?thesis
      by (auto simp add: type_matches_def)
  qed
  have tl: "\<forall>ir\<in>set rs. fst ir = i \<longrightarrow> typed (snd ir)" using Cons.prems(2) by simp
  show ?case
  proof (cases st)
    case Continue
    with Cons.prems(1) p have "records_loop ex maxlen seq b1 rs = (b', out, None)" by simp
    from Cons.IH [OF this tl] Continue sk show ?thesis by auto
  next
    case (Written r)
    obtain b2 out2 f2 where rl: "records_loop ex maxlen seq b1 rs = (b2, out2, f2)"
      by (cases "records_loop ex maxlen seq b1 rs")
    with Cons.prems(1) p Written have o: "out = (fst ir, r) # out2" "f2 = None" "b2 = b'"
      by simp_all
    from rl o have "records_loop ex maxlen seq b1 rs = (b', out2, None)" by simp
    from Cons.IH [OF this tl] Written sk o show ?thesis by auto
  next
    case (Crashed f)
    with Cons.prems(1) p show ?thesis by simp
  qed
qed

text \<open>
  The buffer \<open>svt\<close> holds no other type than the requested one: then the test of
  line 146 lets every record pass that has no SVTYPE.
\<close>

lemma process_record_svt:
  "svt (fst (process_record ex maxlen seq b rec)) = bcf_get_info_string rec ''SVTYPE'' (svt b)"
  by (simp add: process_record_def Let_def read_svtype_def read_end_def read_consensus_def
      split: sum.splits realignment.splits)

lemma harmless_svt_kept:
  assumes m: "typed rec \<longrightarrow> type_matches ex rec"
    and h: "svt b = None \<or> svt b = Some (addID ex)"
  shows "snd (process_record ex maxlen seq b rec) \<noteq> Continue \<and>
         (svt (fst (process_record ex maxlen seq b rec)) = None \<or>
          svt (fst (process_record ex maxlen seq b rec)) = Some (addID ex))"
proof -
  have g: "bcf_get_info_string rec ''SVTYPE'' (svt b) = None \<or>
           bcf_get_info_string rec ''SVTYPE'' (svt b) = Some (addID ex)"
    using m h by (auto simp add: bcf_get_info_string_def typed_def type_matches_def
        split: option.splits info_value.splits)
  then have p: "passes_filter ex b rec"
    by (auto simp add: passes_filter_def type_mismatch_def read_svtype_def)
  have "snd (process_record ex maxlen seq b rec) \<noteq> Continue"
  proof (cases "eligible maxlen b rec")
    case False
    with p show ?thesis by (simp add: process_record_tags emit_not_continue)
  next
    case True
    with p have "refinement_attempted ex maxlen b rec" by (simp add: refinement_attempted_def)
    then show ?thesis
      by (simp add: process_record_realign emit_not_continue split: sum.splits realignment.splits)
  qed
  with g show ?thesis by (simp add: process_record_svt)
qed

lemma records_loop_all_kept:
  "records_loop ex maxlen seq b rs = (b', out, None) \<Longrightarrow>
     \<forall>ir\<in>set rs. typed (snd ir) \<longrightarrow> type_matches ex (snd ir) \<Longrightarrow>
     svt b = None \<or> svt b = Some (addID ex) \<Longrightarrow>
     map fst out = map fst rs \<and> (svt b' = None \<or> svt b' = Some (addID ex))"
proof (induction rs arbitrary: b b' out)
  case Nil
  then show ?case by simp
next
  case (Cons ir rs)
  obtain b1 st where p: "process_record ex maxlen seq b (snd ir) = (b1, st)"
    by (cases "process_record ex maxlen seq b (snd ir)")
  from Cons.prems(2) have m: "typed (snd ir) \<longrightarrow> type_matches ex (snd ir)" by simp
  from harmless_svt_kept [OF m Cons.prems(3), of maxlen seq] p
  have k: "st \<noteq> Continue" and h1: "svt b1 = None \<or> svt b1 = Some (addID ex)" by simp_all
  have tl: "\<forall>ir\<in>set rs. typed (snd ir) \<longrightarrow> type_matches ex (snd ir)"
    using Cons.prems(2) by simp
  show ?case
  proof (cases st)
    case Continue
    with k show ?thesis by simp
  next
    case (Written r)
    obtain b2 out2 f2 where rl: "records_loop ex maxlen seq b1 rs = (b2, out2, f2)"
      by (cases "records_loop ex maxlen seq b1 rs")
    with Cons.prems(1) p Written have o: "out = (fst ir, r) # out2" "f2 = None" "b2 = b'"
      by simp_all
    from rl o have "records_loop ex maxlen seq b1 rs = (b', out2, None)" by simp
    from Cons.IH [OF this tl h1] o show ?thesis by simp
  next
    case (Crashed f)
    with Cons.prems(1) p show ?thesis by simp
  qed
qed

text \<open>
  The outer loop, for any property of the inner loop that counts the written copies
  of record \<open>i\<close> as those of the records a test \<open>P\<close> selects, given an invariant
  \<open>Inv\<close> of the buffers.
\<close>

lemma genome_loop_count:
  assumes R: "\<And>seq b rs b' out. Inv b \<Longrightarrow> set rs \<subseteq> set recs \<Longrightarrow>
      records_loop ex maxlen seq b rs = (b', out, None) \<Longrightarrow>
      count_list (map fst out) i = count_list (map fst (filter P rs)) i \<and> Inv b'"
  shows "Inv b \<Longrightarrow> genome_loop ex maxlen hdr recs b g = (out, None) \<Longrightarrow>
     count_list (map fst out) i =
       sum_list (map (\<lambda>ns. case bcf_hdr_name2id hdr (fst ns) of
                             None \<Rightarrow> 0
                           | Some c \<Rightarrow>
                               count_list (map fst (filter P
                                 (bcf_itr_query recs c (length (snd ns))))) i) g)"
proof (induction g arbitrary: b out)
  case Nil
  then show ?case by simp
next
  case (Cons ns g)
  show ?case
  proof (cases "bcf_hdr_name2id hdr (fst ns)")
    case None
    with Cons.prems(2) have "genome_loop ex maxlen hdr recs b g = (out, None)" by simp
    from Cons.IH [OF Cons.prems(1) this] None show ?thesis by simp
  next
    case (Some c)
    let ?q = "bcf_itr_query recs c (length (snd ns))"
    obtain b1 out1 f1 where rl: "records_loop ex maxlen (snd ns) b ?q = (b1, out1, f1)"
      by (cases "records_loop ex maxlen (snd ns) b ?q")
    have f1: "f1 = None"
      using Cons.prems(2) Some rl by (cases f1) simp_all
    obtain out2 f2 where gl: "genome_loop ex maxlen hdr recs b1 g = (out2, f2)"
      by (cases "genome_loop ex maxlen hdr recs b1 g")
    from Cons.prems(2) Some rl f1 gl have o: "out = out1 @ out2" "f2 = None" by simp_all
    have q: "set ?q \<subseteq> set recs" by (auto simp add: bcf_itr_query_def)
    from rl f1 have "records_loop ex maxlen (snd ns) b ?q = (b1, out1, None)" by simp
    from R [OF Cons.prems(1) q this]
    have h1: "count_list (map fst out1) i = count_list (map fst (filter P ?q)) i" and inv: "Inv b1"
      by simp_all
    from gl o have "genome_loop ex maxlen hdr recs b1 g = (out2, None)" by simp
    note h2 = Cons.IH [OF inv this]
    show ?thesis using o h1 h2 Some by simp
  qed
qed

lemma count_filtered_distinct:
  "distinct (map fst xs) \<Longrightarrow>
     count_list (map fst (filter P xs)) i = (if \<exists>x\<in>set xs. fst x = i \<and> P x then 1 else 0)"
proof (induction xs)
  case Nil
  then show ?case by simp
next
  case (Cons x xs)
  then have d: "distinct (map fst xs)" and n: "fst x \<notin> fst ` set xs" by simp_all
  from n have "\<not> (\<exists>y\<in>set xs. fst y = fst x \<and> P y)" by (metis imageI)
  with Cons.IH [OF d] show ?case by auto
qed

lemma count_filtered_enumerate:
  "count_list (map fst (filter P (enumerate 0 rs))) i =
     (if i < length rs \<and> P (i, rs ! i) then 1 else 0)"
proof -
  have "(\<exists>x\<in>set (enumerate 0 rs). fst x = i \<and> P x) \<longleftrightarrow> i < length rs \<and> P (i, rs ! i)"
  proof
    assume "\<exists>x\<in>set (enumerate 0 rs). fst x = i \<and> P x"
    then obtain x where x: "x \<in> set (enumerate 0 rs)" "fst x = i" "P x" by blast
    from x(1) have "fst x < length rs" "snd x = rs ! fst x"
      by (simp_all add: in_set_enumerate_eq)
    with x(2) x(3) show "i < length rs \<and> P (i, rs ! i)"
      by (metis prod.collapse)
  next
    assume a: "i < length rs \<and> P (i, rs ! i)"
    then have "(i, rs ! i) \<in> set (enumerate 0 rs)" by (simp add: in_set_enumerate_eq)
    with a show "\<exists>x\<in>set (enumerate 0 rs). fst x = i \<and> P x" by force
  qed
  then show ?thesis
    by (simp add: count_filtered_distinct)
qed

lemma name2id_from_nth:
  "name2id_from k cs n = Some c \<Longrightarrow> k \<le> c \<and> c - k < length cs \<and> cs ! (c - k) = n"
proof (induction cs arbitrary: k)
  case Nil
  then show ?case by simp
next
  case (Cons a cs)
  show ?case
  proof (cases "a = n")
    case True
    with Cons.prems show ?thesis by simp
  next
    case False
    with Cons.prems have "name2id_from (Suc k) cs n = Some c" by simp
    from Cons.IH [OF this] have ih: "Suc k \<le> c" "c - Suc k < length cs" "cs ! (c - Suc k) = n"
      by simp_all
    from ih(1) have e: "c - k = Suc (c - Suc k)" by simp
    from ih show ?thesis by (simp add: e)
  qed
qed

lemma name2id_inj:
  "bcf_hdr_name2id hdr n = Some c \<Longrightarrow> bcf_hdr_name2id hdr n' = Some c \<Longrightarrow> n = n'"
  unfolding bcf_hdr_name2id_def
  using name2id_from_nth [of 0 "contigs hdr" n c] name2id_from_nth [of 0 "contigs hdr" n' c]
  by simp

lemma sum_indicators:
  "distinct (map fst g) \<Longrightarrow> (\<And>x y. x \<in> set g \<Longrightarrow> y \<in> set g \<Longrightarrow> Q x \<Longrightarrow> Q y \<Longrightarrow> fst x = fst y) \<Longrightarrow>
     sum_list (map (\<lambda>x. if Q x then 1 else 0) g) = (if \<exists>x\<in>set g. Q x then 1 else (0::nat))"
proof (induction g)
  case Nil
  then show ?case by simp
next
  case (Cons a g)
  have d: "distinct (map fst g)" using Cons.prems(1) by simp
  have u: "\<And>x y. x \<in> set g \<Longrightarrow> y \<in> set g \<Longrightarrow> Q x \<Longrightarrow> Q y \<Longrightarrow> fst x = fst y"
    using Cons.prems(2) by simp
  note ih = Cons.IH [OF d u]
  show ?case
  proof (cases "Q a")
    case False
    with ih show ?thesis by simp
  next
    case True
    have "\<not> (\<exists>x\<in>set g. Q x)"
    proof
      assume "\<exists>x\<in>set g. Q x"
      then obtain x where x: "x \<in> set g" "Q x" by blast
      with Cons.prems(2) [of a x] True have "fst a = fst x" by simp
      with x(1) Cons.prems(1) show False by force
    qed
    with ih True show ?thesis by simp
  qed
qed

text \<open>
  C10, as the code has it: in a run that reaches its end, over a genome file whose
  sequence names are distinct, take the input record number \<open>i\<close>, and let it carry
  an SVTYPE string, or let every SVTYPE string in the file be the requested type.
  The record is written exactly once if it carries the requested type or no SVTYPE
  string and some genome sequence has its chromosome's name and is longer than its
  position, and is not written at all otherwise.
\<close>

theorem written_once_iff:
  assumes d: "distinct (map fst fasta)"
    and s: "stopped (runAnnotate ex maxlen fasta hdr recs) = None"
    and i: "i < length recs"
    and h: "typed (recs ! i) \<or> (\<forall>r\<in>set recs. typed r \<longrightarrow> type_matches ex r)"
  shows "count_list (map fst (written (runAnnotate ex maxlen fasta hdr recs))) i =
     (if (\<exists>ns\<in>set fasta. bcf_hdr_name2id hdr (fst ns) = Some (rid (recs ! i)) \<and>
             0 \<le> pos (recs ! i) \<and> pos (recs ! i) < int (length (snd ns))) \<and>
         (type_matches ex (recs ! i) \<or> \<not> typed (recs ! i))
      then 1 else 0)"
proof -
  let ?irecs = "enumerate 0 recs"
  let ?r = "recs ! i"
  let ?K = "type_matches ex ?r \<or> \<not> typed ?r"
  let ?S = "\<lambda>P ns. case bcf_hdr_name2id hdr (fst ns) of
                    None \<Rightarrow> 0
                  | Some c \<Rightarrow>
                      count_list (map fst (filter P
                        (bcf_itr_query ?irecs c (length (snd ns))))) i"
  let ?Q = "\<lambda>ns. bcf_hdr_name2id hdr (fst ns) = Some (rid ?r) \<and>
                 0 \<le> pos ?r \<and> pos ?r < int (length (snd ns)) \<and> ?K"
  obtain out f where gl: "genome_loop ex maxlen hdr ?irecs null_buffers fasta = (out, f)"
    by (cases "genome_loop ex maxlen hdr ?irecs null_buffers fasta")
  with s have f: "f = None" and w: "written (runAnnotate ex maxlen fasta hdr recs) = out"
    by (simp_all add: runAnnotate_def)
  from gl f have gl': "genome_loop ex maxlen hdr ?irecs null_buffers fasta = (out, None)" by simp
  have "\<exists>P. (P (i, ?r) \<longleftrightarrow> ?K) \<and> count_list (map fst out) i = sum_list (map (?S P) fasta)"
    using h
  proof
    assume ty: "typed ?r"
    let ?P = "\<lambda>ir. type_matches ex (snd ir)"
    have R: "count_list (map fst out') i = count_list (map fst (filter ?P rs)) i \<and> True"
      if "True" "set rs \<subseteq> set ?irecs" "records_loop ex maxlen seq b rs = (b', out', None)"
      for seq b rs b' out'
    proof -
      have "\<forall>ir\<in>set rs. fst ir = i \<longrightarrow> typed (snd ir)"
        using that(2) ty by (auto simp add: in_set_enumerate_eq subset_iff)
      from records_loop_count_typed [OF that(3) this] show ?thesis by simp
    qed
    have "count_list (map fst out) i = sum_list (map (?S ?P) fasta)"
      by (rule genome_loop_count [where Inv = "\<lambda>b. True", OF R TrueI gl'])
    with ty show ?thesis by (intro exI [of _ ?P]) simp
  next
    assume all: "\<forall>r\<in>set recs. typed r \<longrightarrow> type_matches ex r"
    let ?P = "\<lambda>ir :: nat \<times> bcf1. True"
    let ?Inv = "\<lambda>b. svt b = None \<or> svt b = Some (addID ex)"
    have R: "count_list (map fst out') i = count_list (map fst (filter ?P rs)) i \<and> ?Inv b'"
      if "?Inv b" "set rs \<subseteq> set ?irecs" "records_loop ex maxlen seq b rs = (b', out', None)"
      for seq b rs b' out'
    proof -
      have "\<forall>ir\<in>set rs. typed (snd ir) \<longrightarrow> type_matches ex (snd ir)"
        using that(2) all by (auto simp add: in_set_enumerate_eq subset_iff) (metis nth_mem)
      from records_loop_all_kept [OF that(3) this that(1)] show ?thesis by simp
    qed
    have n: "?Inv null_buffers" by (simp add: null_buffers_def)
    have "count_list (map fst out) i = sum_list (map (?S ?P) fasta)"
      by (rule genome_loop_count [where Inv = ?Inv, OF R n gl'])
    moreover from all i have "?K" by (metis nth_mem)
    ultimately show ?thesis by (intro exI [of _ ?P]) simp
  qed
  then obtain P where P: "P (i, ?r) \<longleftrightarrow> ?K"
    and o: "count_list (map fst out) i = sum_list (map (?S P) fasta)" by blast
  have c: "?S P ns = (if ?Q ns then 1 else 0)" for ns
  proof (cases "bcf_hdr_name2id hdr (fst ns)")
    case None
    then show ?thesis by simp
  next
    case (Some c)
    have "?S P ns =
        (if i < length recs \<and> in_region c (length (snd ns)) ?r \<and> P (i, ?r) then 1 else 0)"
      by (simp add: Some bcf_itr_query_def count_filtered_enumerate)
    with i Some P show ?thesis by (auto simp add: in_region_def)
  qed
  have "count_list (map fst out) i = sum_list (map (\<lambda>ns. if ?Q ns then 1 else 0) fasta)"
    by (simp add: o c)
  also have "\<dots> = (if \<exists>ns\<in>set fasta. ?Q ns then 1 else 0)"
  proof (rule sum_indicators [OF d])
    fix x y
    assume "?Q x" "?Q y"
    then show "fst x = fst y" by (blast intro: name2id_inj)
  qed
  finally show ?thesis by (simp add: w) blast
qed

lemma demo_run:
  "runAnnotate (fixed_ex ''DEL'' (Some ()) (Some del_split)) 500 [(''chr1'', chr1)] demo_hdr
     [inv_record, del_record, late_record] =
   \<lparr>header = hdr_out demo_hdr,
    written =
      [(1, del_record\<lparr>pos := 4, alleles := ''ACGTA,A'',
             info := (info del_record)
               (''END'' \<mapsto> InfoInt 10, ''INSLEN'' \<mapsto> InfoInt 0, ''SRQ'' \<mapsto> InfoFloat 1,
                ''CE'' \<mapsto> InfoFloat (entropy ''GTACGTAC''))\<rparr>),
       (2, late_record\<lparr>alleles := ''T,<DEL>''\<rparr>)],
    stopped = None\<rparr>"
  by (simp add: record_defs fixed_ex_def chr1_def inv_record_def del_record_def late_record_def
      null_buffers_def del_split_def runAnnotate_def bcf_hdr_name2id_def demo_hdr_def
      bcf_itr_query_def in_region_def enumerate_eq_zip)

lemma demo_run_untyped:
  "stopped (runAnnotate (fixed_ex ''DEL'' (Some ()) (Some del_split)) 500 [(''chr1'', chr1)]
     demo_hdr [untyped_imprecise_record, untyped_record]) = None"
  by (simp add: record_defs fixed_ex_def chr1_def untyped_imprecise_record_def
      untyped_record_def null_buffers_def del_split_def runAnnotate_def bcf_hdr_name2id_def
      demo_hdr_def bcf_itr_query_def in_region_def enumerate_eq_zip)

theorem written_once_iff_witness:
  "distinct (map fst [(''chr1'', chr1)]) \<and>
   stopped (runAnnotate (fixed_ex ''DEL'' (Some ()) (Some del_split)) 500 [(''chr1'', chr1)]
              demo_hdr [inv_record, del_record, late_record]) = None \<and>
   (1::nat) < length [inv_record, del_record, late_record] \<and>
   typed ([inv_record, del_record, late_record] ! 1) \<and>
   count_list (map fst (written (runAnnotate (fixed_ex ''DEL'' (Some ()) (Some del_split)) 500
       [(''chr1'', chr1)] demo_hdr [inv_record, del_record, late_record]))) 1 = 1 \<and>
   typed ([inv_record, del_record, late_record] ! 0) \<and>
   count_list (map fst (written (runAnnotate (fixed_ex ''DEL'' (Some ()) (Some del_split)) 500
       [(''chr1'', chr1)] demo_hdr [inv_record, del_record, late_record]))) 0 = 0 \<and>
   stopped (runAnnotate (fixed_ex ''DEL'' (Some ()) (Some del_split)) 500 [(''chr1'', chr1)]
              demo_hdr [untyped_imprecise_record, untyped_record]) = None \<and>
   \<not> typed untyped_imprecise_record \<and> \<not> typed untyped_record \<and>
   count_list (map fst (written (runAnnotate (fixed_ex ''DEL'' (Some ()) (Some del_split)) 500
       [(''chr1'', chr1)] demo_hdr [untyped_imprecise_record, untyped_record]))) 1 = 1"
proof -
  let ?ex = "fixed_ex ''DEL'' (Some ()) (Some del_split)"
  let ?recs = "[inv_record, del_record, late_record]"
  let ?urecs = "[untyped_imprecise_record, untyped_record]"
  have d: "distinct (map fst [(''chr1'', chr1)])" by simp
  have s: "stopped (runAnnotate ?ex 500 [(''chr1'', chr1)] demo_hdr ?recs) = None"
    by (simp add: demo_run)
  have i1: "(1::nat) < length ?recs" by simp
  have i0: "(0::nat) < length ?recs" by simp
  have t1: "typed (?recs ! 1)" by (simp add: typed_def del_record_def)
  have t0: "typed (?recs ! 0)" by (simp add: typed_def inv_record_def)
  have u: "\<not> typed untyped_imprecise_record" "\<not> typed untyped_record"
    by (simp_all add: typed_def untyped_imprecise_record_def untyped_record_def)
  have j1: "(1::nat) < length ?urecs" by simp
  from u have hu: "typed (?urecs ! 1) \<or> (\<forall>r\<in>set ?urecs. typed r \<longrightarrow> type_matches ?ex r)"
    by simp
  have "count_list (map fst (written (runAnnotate ?ex 500 [(''chr1'', chr1)] demo_hdr ?recs))) 1 = 1"
    using written_once_iff [OF d s i1 disjI1 [OF t1]]
    by (simp add: bcf_hdr_name2id_def demo_hdr_def del_record_def chr1_def type_matches_def
        fixed_ex_def)
  moreover
  have "count_list (map fst (written (runAnnotate ?ex 500 [(''chr1'', chr1)] demo_hdr ?recs))) 0 = 0"
    using written_once_iff [OF d s i0 disjI1 [OF t0]] t0
    by (simp add: bcf_hdr_name2id_def demo_hdr_def inv_record_def chr1_def type_matches_def
        fixed_ex_def)
  moreover
  have "count_list (map fst (written (runAnnotate ?ex 500 [(''chr1'', chr1)] demo_hdr ?urecs))) 1 = 1"
    using written_once_iff [OF d demo_run_untyped j1 hu] u
    by (simp add: bcf_hdr_name2id_def demo_hdr_def untyped_record_def chr1_def)
  ultimately show ?thesis using d s i1 t1 t0 u demo_run_untyped by simp
qed

text \<open>
  The property as the specification words it fails for a record that lies beyond the end of its chromosome
  in the genome file: its chromosome is a sequence of the genome and its SVTYPE is
  the requested type, but the region query of line 136 ends at the sequence length
  and the record is never written.
\<close>

theorem written_once_iff_counterexample:
  "contigs demo_hdr ! rid late_record = ''chr1'' \<and>
   bcf_hdr_name2id demo_hdr ''chr1'' = Some (rid late_record) \<and>
   spec_type_ok (fixed_ex ''DEL'' (Some ()) (Some del_split)) late_record \<and>
   runAnnotate (fixed_ex ''DEL'' (Some ()) (Some del_split)) 500 [(''chr1'', chr10)] demo_hdr
     [late_record] =
   \<lparr>header = hdr_out demo_hdr, written = [], stopped = None\<rparr>"
  by (simp add: spec_type_ok_def fixed_ex_def chr10_def late_record_def null_buffers_def
      runAnnotate_def bcf_hdr_name2id_def demo_hdr_def bcf_itr_query_def in_region_def
      enumerate_eq_zip)

section \<open>Runs that reach their end\<close>

lemma imprecise_record_written:
  assumes "\<not> precise rec" "0 \<le> pos rec" "pos rec < int (length seq)"
  shows "\<exists>b'. process_record ex maxlen seq b rec = (b', Continue) \<or>
              (\<exists>w. process_record ex maxlen seq b rec = (b', Written w))"
proof (cases "passes_filter ex b rec")
  case False
  then show ?thesis by (simp add: process_record_skip)
next
  case True
  from assms(1) have "\<not> eligible maxlen b rec" by (simp add: eligible_def)
  with True show ?thesis
    by (simp add: process_record_tags use_tags_in_region [OF assms(2,3)] emit_def)
qed

lemma imprecise_records_loop:
  "\<forall>ir\<in>set rs. \<not> precise (snd ir) \<and> 0 \<le> pos (snd ir) \<and> pos (snd ir) < int (length seq) \<Longrightarrow>
     snd (snd (records_loop ex maxlen seq b rs)) = None"
proof (induction rs arbitrary: b)
  case Nil
  then show ?case by simp
next
  case (Cons ir rs)
  then have h: "\<not> precise (snd ir)" "0 \<le> pos (snd ir)" "pos (snd ir) < int (length seq)"
    by simp_all
  from Cons.prems have tl:
    "\<forall>ir\<in>set rs. \<not> precise (snd ir) \<and> 0 \<le> pos (snd ir) \<and> pos (snd ir) < int (length seq)"
    by simp
  from imprecise_record_written [OF h, of ex maxlen b] obtain b' where
    "process_record ex maxlen seq b (snd ir) = (b', Continue) \<or>
     (\<exists>w. process_record ex maxlen seq b (snd ir) = (b', Written w))" by blast
  then show ?case
    using Cons.IH [OF tl, of b'] by (auto split: prod.splits)
qed

lemma imprecise_genome_loop:
  "\<forall>ir\<in>set recs. \<not> precise (snd ir) \<Longrightarrow> snd (genome_loop ex maxlen hdr recs b g) = None"
proof (induction g arbitrary: b)
  case Nil
  then show ?case by simp
next
  case (Cons ns g)
  show ?case
  proof (cases "bcf_hdr_name2id hdr (fst ns)")
    case None
    with Cons show ?thesis by simp
  next
    case (Some c)
    let ?q = "bcf_itr_query recs c (length (snd ns))"
    have "\<forall>ir\<in>set ?q. \<not> precise (snd ir) \<and> 0 \<le> pos (snd ir) \<and>
            pos (snd ir) < int (length (snd ns))"
      using Cons.prems by (simp add: bcf_itr_query_def in_region_def)
    from imprecise_records_loop [OF this, of ex maxlen b]
    have "snd (snd (records_loop ex maxlen (snd ns) b ?q)) = None" .
    then show ?thesis
      using Some Cons.IH [OF Cons.prems]
      by (auto split: prod.splits option.splits) (metis snd_conv)
  qed
qed

lemma imprecise_run_ends:
  "\<forall>r\<in>set recs. \<not> precise r \<Longrightarrow> stopped (runAnnotate ex maxlen fasta hdr recs) = None"
proof -
  assume "\<forall>r\<in>set recs. \<not> precise r"
  then have "\<forall>ir\<in>set (enumerate 0 recs). \<not> precise (snd ir)"
    by (auto simp add: in_set_enumerate_eq)
  from imprecise_genome_loop [OF this, of ex maxlen hdr null_buffers fasta]
  show ?thesis by (cases "genome_loop ex maxlen hdr (enumerate 0 recs) null_buffers fasta")
      (simp add: runAnnotate_def)
qed

end
